theory Spec2Isabelle
  imports Main "HOL-Library.Sublist" "HOL-Library.List_Lexorder" "HOL-Library.Char_ord"
begin

section \<open>Strings of the server\<close>

text \<open>
  The server (\<^verbatim>\<open>server/index.js\<close>) works on JavaScript strings. They are modelled as
  \<^typ>\<open>string\<close>, a text being the list of its UTF-8 bytes: an ASCII character is one byte,
  and every character beyond ASCII is a sequence of bytes from 128 upwards (the dash and the
  emoji of the canned replies, the check mark of the log lines are written so). An ASCII word
  occurs in a text exactly when its bytes occur in the bytes of the text.
\<close>

definition upper_letters :: string where
  "upper_letters = ''ABCDEFGHIJKLMNOPQRSTUVWXYZ''"

definition lower_letters :: string where
  "lower_letters = ''abcdefghijklmnopqrstuvwxyz''"

definition lowerChar :: "char \<Rightarrow> char" where
  "lowerChar c = (case map_of (zip upper_letters lower_letters) c of Some d \<Rightarrow> d | None \<Rightarrow> c)"

definition upperChar :: "char \<Rightarrow> char" where
  "upperChar c = (case map_of (zip lower_letters upper_letters) c of Some d \<Rightarrow> d | None \<Rightarrow> c)"

text \<open>
  \<^verbatim>\<open>s.toLowerCase()\<close>. The letters A to Z become a to z. Two characters beyond ASCII become
  ASCII letters: the Kelvin sign (U+212A) becomes \<open>k\<close>, and the capital I with a dot above
  (U+0130) becomes \<open>i\<close> followed by the combining dot above (U+0307). Every other character
  beyond ASCII becomes characters beyond ASCII; its bytes are left as they are here, so the
  result has the ASCII characters of the engine's result, each in its place between the
  characters beyond ASCII. The server only searches the result for ASCII words.
\<close>

definition kelvinSign :: string where
  "kelvinSign = [CHR 0xE2, CHR 0x84, CHR 0xAA]"

definition capitalIDot :: string where
  "capitalIDot = [CHR 0xC4, CHR 0xB0]"

definition combiningDot :: string where
  "combiningDot = [CHR 0xCC, CHR 0x87]"

fun toLowerCase :: "string \<Rightarrow> string" where
  "toLowerCase [] = []"
| "toLowerCase (c # cs) =
     (if take 3 (c # cs) = kelvinSign then CHR ''k'' # toLowerCase (drop 2 cs)
      else if take 2 (c # cs) = capitalIDot then CHR ''i'' # combiningDot @ toLowerCase (drop 1 cs)
      else lowerChar c # toLowerCase cs)"

text \<open>\<^verbatim>\<open>s.includes(t)\<close>: \<open>t\<close> occurs in \<open>s\<close> as a contiguous block.\<close>

fun startsWith :: "string \<Rightarrow> string \<Rightarrow> bool" where
  "startsWith s [] = True"
| "startsWith [] (p # ps) = False"
| "startsWith (c # cs) (p # ps) = (c = p \<and> startsWith cs ps)"

fun str_includes :: "string \<Rightarrow> string \<Rightarrow> bool" where
  "str_includes [] t = startsWith [] t"
| "str_includes (c # cs) t = (startsWith (c # cs) t \<or> str_includes cs t)"

text \<open>\<^verbatim>\<open>s.trim()\<close>: the white space of both ends is removed.\<close>

definition isSpace :: "char \<Rightarrow> bool" where
  "isSpace c = (c \<in> set [CHR '' '', CHR 0x09, CHR 0x0A, CHR 0x0B, CHR 0x0C, CHR 0x0D])"

definition trim :: "string \<Rightarrow> string" where
  "trim s = rev (dropWhile isSpace (rev (dropWhile isSpace s)))"

section \<open>Regular expressions\<close>

text \<open>
  The four regular expressions of the server use literals, one character class, sequence,
  alternation, the greedy quantifiers \<^verbatim>\<open>?\<close> and \<^verbatim>\<open>{m,n}\<close>, and capturing groups. The matcher is
  the backtracking one of the language: \<open>rx_at\<close> lists, in the order in which the engine
  tries them, the ways in which a pattern matches at the start of the input (what is left of
  the input, and the groups captured); \<open>rx_exec\<close> tries the start positions from left to
  right and keeps the first success. The flag is \<^verbatim>\<open>/i\<close>: characters are compared after
  upper-casing.
\<close>

datatype rx =
    Lit string
  | Cls "(char \<times> char) list"
  | Seq rx rx
  | Alt rx rx
  | Opt rx
  | Rep nat nat rx
  | Grp nat rx

type_synonym caps = "(nat \<times> string) list"

definition canon :: "bool \<Rightarrow> char \<Rightarrow> char" where
  "canon i c = (if i then upperChar c else c)"

fun litAt :: "bool \<Rightarrow> string \<Rightarrow> string \<Rightarrow> bool" where
  "litAt i [] s = True"
| "litAt i (p # ps) [] = False"
| "litAt i (p # ps) (c # cs) = (canon i p = canon i c \<and> litAt i ps cs)"

definition inRanges :: "(char \<times> char) list \<Rightarrow> char \<Rightarrow> bool" where
  "inRanges rs c = (\<exists>(lo, hi) \<in> set rs. (of_char lo :: nat) \<le> of_char c \<and> (of_char c :: nat) \<le> of_char hi)"

definition inClass :: "bool \<Rightarrow> (char \<times> char) list \<Rightarrow> char \<Rightarrow> bool" where
  "inClass i rs c = (inRanges rs c \<or> (i \<and> (inRanges rs (upperChar c) \<or> inRanges rs (lowerChar c))))"

fun rx_rep :: "nat \<Rightarrow> nat \<Rightarrow> (string \<Rightarrow> caps \<Rightarrow> (string \<times> caps) list) \<Rightarrow>
    string \<Rightarrow> caps \<Rightarrow> (string \<times> caps) list" where
  "rx_rep lo 0 step s c = (if lo = 0 then [(s, c)] else [])"
| "rx_rep lo (Suc hi) step s c =
     concat (map (\<lambda>(s', c'). rx_rep (lo - 1) hi step s' c') (step s c))
       @ (if lo = 0 then [(s, c)] else [])"

primrec rx_at :: "rx \<Rightarrow> bool \<Rightarrow> string \<Rightarrow> caps \<Rightarrow> (string \<times> caps) list" where
  "rx_at (Lit w) i s c = (if litAt i w s then [(drop (length w) s, c)] else [])"
| "rx_at (Cls rs) i s c =
     (case s of [] \<Rightarrow> [] | x # xs \<Rightarrow> if inClass i rs x then [(xs, c)] else [])"
| "rx_at (Seq a b) i s c = concat (map (\<lambda>(s', c'). rx_at b i s' c') (rx_at a i s c))"
| "rx_at (Alt a b) i s c = rx_at a i s c @ rx_at b i s c"
| "rx_at (Opt a) i s c = rx_at a i s c @ [(s, c)]"
| "rx_at (Rep lo hi a) i s c = rx_rep lo hi (rx_at a i) s c"
| "rx_at (Grp n a) i s c =
     map (\<lambda>(s', c'). (s', (n, take (length s - length s') s) # c')) (rx_at a i s c)"

fun rx_exec :: "rx \<Rightarrow> bool \<Rightarrow> string \<Rightarrow> caps option" where
  "rx_exec r i [] = (case rx_at r i [] [] of [] \<Rightarrow> None | (_, c) # _ \<Rightarrow> Some c)"
| "rx_exec r i (x # xs) =
     (case rx_at r i (x # xs) [] of [] \<Rightarrow> rx_exec r i xs | (_, c) # _ \<Rightarrow> Some c)"

definition rx_test :: "rx \<Rightarrow> bool \<Rightarrow> string \<Rightarrow> bool" where
  "rx_test r i s = (rx_exec r i s \<noteq> None)"

section \<open>Tone detection\<close>

text \<open>
  \<^verbatim>\<open>/(sad|depressed|unhappy|down|not good|worried)/\<close> and \<^verbatim>\<open>/(joke|roast|funny|lol|haha)/\<close>,
  tested on the lower-cased message.
\<close>

definition empatheticRx :: rx where
  "empatheticRx = Grp 1 (Alt (Lit ''sad'') (Alt (Lit ''depressed'') (Alt (Lit ''unhappy'')
     (Alt (Lit ''down'') (Alt (Lit ''not good'') (Lit ''worried''))))))"

definition playfulRx :: rx where
  "playfulRx = Grp 1 (Alt (Lit ''joke'') (Alt (Lit ''roast'') (Alt (Lit ''funny'')
     (Alt (Lit ''lol'') (Lit ''haha'')))))"

definition detectTone :: "string \<Rightarrow> string" where
  "detectTone message =
     (let m = toLowerCase message in
      if rx_test empatheticRx False m then ''empathetic''
      else if rx_test playfulRx False m then ''playful''
      else ''neutral'')"

section \<open>The name patterns of the chat route\<close>

text \<open>
  \<^verbatim>\<open>/my name is ([A-Za-z ]{1,40})/i\<close> and \<^verbatim>\<open>/what(('| i)s)? my name\??/i\<close>.
\<close>

definition nameRx :: rx where
  "nameRx = Seq (Lit ''my name is '')
     (Grp 1 (Rep 1 40 (Cls [(CHR ''A'', CHR ''Z''), (CHR ''a'', CHR ''z''), (CHR '' '', CHR '' '')])))"

definition whatNameRx :: rx where
  "whatNameRx = Seq (Lit ''what'')
     (Seq (Opt (Grp 1 (Seq (Grp 2 (Alt (Lit [CHR 0x27]) (Lit '' i''))) (Lit ''s''))))
       (Seq (Lit '' my name'') (Opt (Lit ''?''))))"

section \<open>The database\<close>

text \<open>
  The SQLite file holds up to three tables: \<^verbatim>\<open>memory\<close>, \<^verbatim>\<open>memory_old\<close> (during a migration)
  and \<^verbatim>\<open>history\<close>. A fact table is its rows \<open>(user_id, fact_key, fact_value)\<close> in row order
  and whether it was created with \<^verbatim>\<open>UNIQUE(user_id, fact_key)\<close>. A table that does not exist
  is \<open>None\<close>. The state also keeps, in order, what the process did to the outside: each
  statement sent to the database, each prompt sent to the provider, each console line, and
  an error that nothing handles, with which the node process exits.
\<close>

type_synonym fact = "string \<times> string \<times> string"

type_synonym hist = "string \<times> string \<times> string \<times> string \<times> nat"

record table =
  uniq :: bool
  rows :: "fact list"

datatype stmt =
    PragmaTableInfo
  | RenameMemory
  | CreateMemory
  | CopyMemoryOld
  | DropMemoryOld
  | CreateHistory
  | UpsertFact string string string
  | SelectFacts string
  | InsertHistory string string string string nat

datatype event =
    Exec stmt
  | Generate string
  | ConsoleLog string
  | ConsoleError string
  | Uncaught string

record state =
  memory :: "table option"
  memory_old :: "table option"
  history :: "hist list option"
  trace :: "event list"

definition factId :: "fact \<Rightarrow> string \<times> string" where
  "factId r = (fst r, fst (snd r))"

text \<open>\<^verbatim>\<open>INSERT OR IGNORE\<close> of one row: a row that would break the constraint is skipped.\<close>

definition insertOrIgnore :: "table \<Rightarrow> fact \<Rightarrow> table" where
  "insertOrIgnore t r =
     (if uniq t \<and> factId r \<in> set (map factId (rows t)) then t
      else t\<lparr>rows := rows t @ [r]\<rparr>)"

text \<open>
  \<^verbatim>\<open>INSERT ... ON CONFLICT(user_id, fact_key) DO UPDATE SET fact_value = excluded.fact_value\<close>
  on a table that has the constraint.
\<close>

definition upsert :: "table \<Rightarrow> fact \<Rightarrow> table" where
  "upsert t r =
     (if factId r \<in> set (map factId (rows t))
      then t\<lparr>rows := map (\<lambda>x. if factId x = factId r then r else x) (rows t)\<rparr>
      else t\<lparr>rows := rows t @ [r]\<rparr>)"

definition noSuchTable :: "string \<Rightarrow> string" where
  "noSuchTable n = ''SQLITE_ERROR: no such table: '' @ n"

text \<open>What a statement does when the engine runs it: an error message, or the new state.\<close>

fun sql_run :: "stmt \<Rightarrow> state \<Rightarrow> string + state" where
  "sql_run PragmaTableInfo s = Inr s"
| "sql_run RenameMemory s =
     (case memory s of
        None \<Rightarrow> Inl (noSuchTable ''memory'')
      | Some t \<Rightarrow>
          (case memory_old s of
             Some _ \<Rightarrow> Inl ''SQLITE_ERROR: there is already another table or index with this name: memory_old''
           | None \<Rightarrow> Inr (s\<lparr>memory := None, memory_old := Some t\<rparr>)))"
| "sql_run CreateMemory s =
     (case memory s of
        None \<Rightarrow> Inr (s\<lparr>memory := Some \<lparr>uniq = True, rows = []\<rparr>\<rparr>)
      | Some _ \<Rightarrow> Inr s)"
| "sql_run CopyMemoryOld s =
     (case memory s of
        None \<Rightarrow> Inl (noSuchTable ''memory'')
      | Some t \<Rightarrow>
          (case memory_old s of
             None \<Rightarrow> Inl (noSuchTable ''memory_old'')
           | Some old \<Rightarrow> Inr (s\<lparr>memory := Some (foldl insertOrIgnore t (rows old))\<rparr>)))"
| "sql_run DropMemoryOld s = Inr (s\<lparr>memory_old := None\<rparr>)"
| "sql_run CreateHistory s =
     (case history s of None \<Rightarrow> Inr (s\<lparr>history := Some []\<rparr>) | Some _ \<Rightarrow> Inr s)"
| "sql_run (UpsertFact u k v) s =
     (case memory s of
        None \<Rightarrow> Inl (noSuchTable ''memory'')
      | Some t \<Rightarrow>
          if uniq t then Inr (s\<lparr>memory := Some (upsert t (u, k, v))\<rparr>)
          else Inl ''SQLITE_ERROR: ON CONFLICT clause does not match any PRIMARY KEY or UNIQUE constraint'')"
| "sql_run (SelectFacts u) s =
     (case memory s of None \<Rightarrow> Inl (noSuchTable ''memory'') | Some _ \<Rightarrow> Inr s)"
| "sql_run (InsertHistory u m r t n) s =
     (case history s of
        None \<Rightarrow> Inl (noSuchTable ''history'')
      | Some h \<Rightarrow> Inr (s\<lparr>history := Some (h @ [(u, m, r, t, n)])\<rparr>))"

text \<open>
  The rows of \<^verbatim>\<open>SELECT fact_key, fact_value FROM memory WHERE user_id = ?\<close>. On a table with
  the constraint the engine finds the rows of the user through the index of the constraint,
  and they come in the order of their keys (byte by byte); on a table without it the table
  is scanned and they come in row order.
\<close>

definition selectFacts :: "string \<Rightarrow> table \<Rightarrow> (string \<times> string) list" where
  "selectFacts u t =
     (let rs = map snd (filter (\<lambda>r. fst r = u) (rows t))
      in if uniq t then sort_key fst rs else rs)"

section \<open>The environment of the process\<close>

text \<open>
  The provider client is absent when no key is configured. A call of the provider returns
  the generated text or throws an error that carries a message. A statement can also fail
  for a reason that the tables do not show (the disk, a lock): \<open>fault\<close> gives the message
  of such a failure, and a statement that fails changes nothing.
\<close>

datatype provider_result = Generated string | Failed string

record env =
  genAI :: "(string \<Rightarrow> provider_result) option"
  fault :: "stmt \<Rightarrow> string option"
  now :: nat

definition emit :: "event \<Rightarrow> state \<Rightarrow> state" where
  "emit e s = s\<lparr>trace := trace s @ [e]\<rparr>"

text \<open>\<^verbatim>\<open>db.run(sql, callback)\<close>: the statement is sent, the callback receives the error if any.\<close>

definition db_run :: "env \<Rightarrow> stmt \<Rightarrow> state \<Rightarrow> string option \<times> state" where
  "db_run e q s =
     (let s' = emit (Exec q) s in
      case fault e q of
        Some msg \<Rightarrow> (Some msg, s')
      | None \<Rightarrow> (case sql_run q s' of Inl msg \<Rightarrow> (Some msg, s') | Inr s'' \<Rightarrow> (None, s'')))"

text \<open>
  \<^verbatim>\<open>db.run(sql, params)\<close> with no callback: the error of a failed statement is raised as an
  \<^verbatim>\<open>error\<close> event of the database object. The server has no listener for it, so the event is
  an uncaught exception and the node process exits. The statement runs after the code that
  sent it has returned: a response that this code sends at once is out before the exit.
\<close>

definition db_run_unheard :: "env \<Rightarrow> stmt \<Rightarrow> state \<Rightarrow> state" where
  "db_run_unheard e q s =
     (case db_run e q s of
        (Some msg, s') \<Rightarrow> emit (Uncaught msg) s'
      | (None, s') \<Rightarrow> s')"

text \<open>\<^verbatim>\<open>db.all(sql, [userId], callback)\<close>: the callback receives the error or the rows.\<close>

definition db_all :: "env \<Rightarrow> string \<Rightarrow> state \<Rightarrow> (string + (string \<times> string) list) \<times> state" where
  "db_all e u s =
     (case db_run e (SelectFacts u) s of
        (Some msg, s') \<Rightarrow> (Inl msg, s')
      | (None, s') \<Rightarrow>
          (case memory s' of
             None \<Rightarrow> (Inl (noSuchTable ''memory''), s')
           | Some t \<Rightarrow> (Inr (selectFacts u t), s')))"

section \<open>Database migration\<close>

text \<open>
  \<^verbatim>\<open>migrateMemoryTable\<close>: each statement is sent from the callback of the one before it. The
  callbacks of the table check, of the rename and of the create return on an error; the
  callback of the copy logs the error and goes on to the drop.
\<close>

definition checkMark :: string where
  "checkMark = [CHR 0xE2, CHR 0x9C, CHR 0x85]"

definition migrateMemoryTable :: "env \<Rightarrow> state \<Rightarrow> state" where
  "migrateMemoryTable e s0 =
     (case db_run e PragmaTableInfo s0 of
        (Some err, s1) \<Rightarrow> emit (ConsoleError (''Error checking memory table: '' @ err)) s1
      | (None, s1) \<Rightarrow>
     (case db_run e RenameMemory s1 of
        (renameErr, s2) \<Rightarrow>
     (case (case renameErr of
              None \<Rightarrow> None
            | Some msg \<Rightarrow> if \<not> str_includes msg ''no such table'' then Some msg else None) of
        Some msg \<Rightarrow> emit (ConsoleError (''Error renaming memory table: '' @ msg)) s2
      | None \<Rightarrow>
     (case db_run e CreateMemory s2 of
        (Some createErr, s3) \<Rightarrow>
          emit (ConsoleError (''Error creating new memory table: '' @ createErr)) s3
      | (None, s3) \<Rightarrow>
     (case db_run e CopyMemoryOld s3 of
        (insertErr, s4) \<Rightarrow>
     (let s5 = (case insertErr of
                  Some msg \<Rightarrow> emit (ConsoleError (''Error copying data: '' @ msg)) s4
                | None \<Rightarrow> s4) in
      case db_run e DropMemoryOld s5 of
        (Some dropErr, s6) \<Rightarrow> emit (ConsoleError (''Error dropping old table: '' @ dropErr)) s6
      | (None, s6) \<Rightarrow>
          emit (ConsoleLog (checkMark @ '' Memory table migrated successfully'')) s6))))))"

text \<open>\<^verbatim>\<open>CREATE TABLE IF NOT EXISTS history\<close>, sent at startup.\<close>

definition createHistoryTable :: "env \<Rightarrow> state \<Rightarrow> state" where
  "createHistoryTable e s = db_run_unheard e CreateHistory s"

section \<open>Facts and history\<close>

text \<open>
  A plain JavaScript object with string values, as the list of its own properties in the
  order in which the language lists them: first the keys that are array indices (the decimal
  numerals below \<open>2^32 - 1\<close>, without leading zero), by their number, then the other keys in the
  order in which they were first set.
\<close>

type_synonym obj = "(string \<times> string) list"

definition isDigit :: "char \<Rightarrow> bool" where
  "isDigit c = ((48 :: nat) \<le> of_char c \<and> (of_char c :: nat) \<le> 57)"

definition isArrayIndex :: "string \<Rightarrow> bool" where
  "isArrayIndex k =
     (k \<noteq> [] \<and> list_all isDigit k \<and> (k = ''0'' \<or> take 1 k \<noteq> ''0'')
        \<and> (length k < 10 \<or> (length k = 10 \<and> k < ''4294967295'')))"

text \<open>The order of two array indices by their numbers: the shorter numeral is the smaller.\<close>

definition indexLess :: "string \<Rightarrow> string \<Rightarrow> bool" where
  "indexLess a b = (length a < length b \<or> (length a = length b \<and> a < b))"

definition indexBelow :: "string \<Rightarrow> string \<times> string \<Rightarrow> bool" where
  "indexBelow k p = (isArrayIndex (fst p) \<and> indexLess (fst p) k)"

text \<open>
  \<^verbatim>\<open>ob[k] = v\<close>. The key \<^verbatim>\<open>__proto__\<close> is the accessor that the object inherits: to assign a
  string to it changes nothing, and no property is made.
\<close>

definition obj_set :: "obj \<Rightarrow> string \<Rightarrow> string \<Rightarrow> obj" where
  "obj_set ob k v =
     (if k = ''__proto__'' then ob
      else if k \<in> set (map fst ob)
        then map (\<lambda>(k', v'). if k' = k then (k', v) else (k', v')) ob
      else if isArrayIndex k
        then takeWhile (indexBelow k) ob @ [(k, v)] @ dropWhile (indexBelow k) ob
      else ob @ [(k, v)])"

definition obj_get :: "obj \<Rightarrow> string \<Rightarrow> string option" where
  "obj_get ob k = map_of ob k"

text \<open>\<^verbatim>\<open>saveFact\<close> passes no callback.\<close>

definition saveFact :: "env \<Rightarrow> string \<Rightarrow> string \<Rightarrow> string \<Rightarrow> state \<Rightarrow> state" where
  "saveFact e userId key val s = db_run_unheard e (UpsertFact userId key val) s"

text \<open>\<^verbatim>\<open>getFacts\<close>, with the value handed to the callback as the result.\<close>

definition getFacts :: "env \<Rightarrow> string \<Rightarrow> state \<Rightarrow> obj \<times> state" where
  "getFacts e userId s =
     (case db_all e userId s of
        (Inl err, s') \<Rightarrow> ([], s')
      | (Inr rs, s') \<Rightarrow> (foldl (\<lambda>facts r. obj_set facts (fst r) (snd r)) [] rs, s'))"

text \<open>\<^verbatim>\<open>saveHistory\<close> passes no callback either.\<close>

definition saveHistory :: "env \<Rightarrow> string \<Rightarrow> string \<Rightarrow> string \<Rightarrow> string \<Rightarrow> state \<Rightarrow> state" where
  "saveHistory e userId msg reply tone s =
     db_run_unheard e (InsertHistory userId msg reply tone (now e)) s"

section \<open>Prompt builder\<close>

definition hexDigit :: "nat \<Rightarrow> char" where
  "hexDigit n = ''0123456789abcdef'' ! n"

text \<open>The escapes of \<^verbatim>\<open>JSON.stringify\<close> inside a string.\<close>

definition jsonChar :: "char \<Rightarrow> string" where
  "jsonChar c =
     (if c = CHR 0x22 then [CHR 0x5C, CHR 0x22]
      else if c = CHR 0x5C then [CHR 0x5C, CHR 0x5C]
      else if c = CHR 0x08 then [CHR 0x5C, CHR ''b'']
      else if c = CHR 0x09 then [CHR 0x5C, CHR ''t'']
      else if c = CHR 0x0A then [CHR 0x5C, CHR ''n'']
      else if c = CHR 0x0C then [CHR 0x5C, CHR ''f'']
      else if c = CHR 0x0D then [CHR 0x5C, CHR ''r'']
      else if (of_char c :: nat) < 32
        then [CHR 0x5C, CHR ''u'', CHR ''0'', CHR ''0'',
              hexDigit ((of_char c :: nat) div 16), hexDigit ((of_char c :: nat) mod 16)]
      else [c])"

definition jsonString :: "string \<Rightarrow> string" where
  "jsonString s = [CHR 0x22] @ concat (map jsonChar s) @ [CHR 0x22]"

fun joinWith :: "string \<Rightarrow> string list \<Rightarrow> string" where
  "joinWith sep [] = []"
| "joinWith sep [x] = x"
| "joinWith sep (x # y # ys) = x @ sep @ joinWith sep (y # ys)"

definition jsonStringify :: "obj \<Rightarrow> string" where
  "jsonStringify ob =
     ''{'' @ joinWith '','' (map (\<lambda>(k, v). jsonString k @ '':'' @ jsonString v) ob) @ ''}''"

definition persona :: string where
  "persona = ''You are a helpful chatbot named 'Riyaz Assistant'. Keep replies concise.''"

definition toneHint :: "string \<Rightarrow> string" where
  "toneHint tone =
     (if tone = ''empathetic'' then ''Respond with empathy, warm and short.''
      else if tone = ''playful'' then ''Respond playful and light-hearted.''
      else ''Respond neutrally and helpfully.'')"

definition buildPrompt :: "string \<Rightarrow> string \<Rightarrow> obj \<Rightarrow> string \<Rightarrow> string" where
  "buildPrompt userId msg facts tone =
     (let factsText =
        (if length (map fst facts) \<noteq> 0
         then ''Known facts about the USER: '' @ jsonStringify facts
         else ''No known facts about the user yet.'')
      in persona @ [CHR 0x0A] @ factsText @ [CHR 0x0A] @ toneHint tone @ [CHR 0x0A]
           @ ''User: '' @ msg @ [CHR 0x0A] @ ''Assistant:'')"

section \<open>Response generator\<close>

record llm_result =
  reply_text :: string
  simulated :: bool

definition emDash :: string where
  "emDash = [CHR 0xE2, CHR 0x80, CHR 0x94]"

definition winkEmoji :: string where
  "winkEmoji = [CHR 0xF0, CHR 0x9F, CHR 0x98, CHR 0x89]"

definition empatheticReply :: string where
  "empatheticReply =
     ''I'm sorry you're feeling that way '' @ emDash @ '' I hear you. Tell me more, and I'll help.''"

definition playfulReply :: string where
  "playfulReply =
     ''Haha nice! You're on fire '' @ emDash @ '' tell me more and I'll roast you gently '' @ winkEmoji"

definition neutralReply :: string where
  "neutralReply =
     ''Thanks for telling me. I can help with that '' @ emDash @ '' what would you like to try next?''"

definition callLLM :: "env \<Rightarrow> string \<Rightarrow> state \<Rightarrow> llm_result \<times> state" where
  "callLLM e prompt s =
     (case genAI e of
        None \<Rightarrow>
          (let reply =
             (if str_includes prompt ''empathetic'' then empatheticReply
              else if str_includes prompt ''playful'' then playfulReply
              else neutralReply)
           in (\<lparr>reply_text = reply, simulated = True\<rparr>, s))
      | Some model \<Rightarrow>
          (let s1 = emit (ConsoleLog (checkMark @ '' Gemini API called with prompt: ''
                            @ take 80 prompt @ ''...'')) s;
               s2 = emit (Generate prompt) s1
           in case model prompt of
                Generated t \<Rightarrow> (\<lparr>reply_text = t, simulated = False\<rparr>, s2)
              | Failed msg \<Rightarrow>
                  (\<lparr>reply_text = ''Error calling Gemini: '' @ msg, simulated = True\<rparr>,
                   emit (ConsoleError (''Gemini error: '' @ msg)) s2)))"

section \<open>The routes\<close>

text \<open>
  The body of a \<^verbatim>\<open>POST /chat\<close> request carries two fields that the route reads; a field is a
  string or is missing. \<^verbatim>\<open>!x\<close> holds of a missing field and of the empty string.
\<close>

record request =
  user_id :: "string option"
  message :: "string option"

datatype body =
    ErrorBody string
  | ChatBody string string bool
  | FactsBody obj

record response =
  status :: nat
  body :: body

definition falsy :: "string option \<Rightarrow> bool" where
  "falsy x = (case x of None \<Rightarrow> True | Some v \<Rightarrow> v = [])"

definition unknownNameReply :: string where
  "unknownNameReply = ''I don't know your name yet. What should I call you?''"

text \<open>
  \<^verbatim>\<open>nameMatch[1].trim()\<close> when \<^verbatim>\<open>message.match(...)\<close> finds the name pattern, \<open>None\<close> when
  \<^verbatim>\<open>nameMatch\<close> is null.
\<close>

definition capturedName :: "string \<Rightarrow> string option" where
  "capturedName msg =
     (case rx_exec nameRx True msg of
        Some groups \<Rightarrow> map_option trim (map_of groups 1)
      | None \<Rightarrow> None)"

text \<open>
  The first part of the route: the facts are loaded, and a name that the message gives is
  saved and put into the loaded facts.
\<close>

definition rememberName :: "env \<Rightarrow> string \<Rightarrow> string \<Rightarrow> state \<Rightarrow> obj \<times> state" where
  "rememberName e uid msg s =
     (case getFacts e uid s of
        (facts, s1) \<Rightarrow>
          (case capturedName msg of
             Some n \<Rightarrow> (obj_set facts ''name'' n, saveFact e uid ''name'' n s1)
           | None \<Rightarrow> (facts, s1)))"

text \<open>
  \<^verbatim>\<open>app.post('/chat')\<close>. \<open>callLLM\<close> catches what the provider throws, and nothing else
  inside the \<^verbatim>\<open>try\<close> of the route throws, so its \<^verbatim>\<open>catch\<close> (status 500) is never entered
  and has no branch here.
\<close>

definition chat :: "env \<Rightarrow> request \<Rightarrow> state \<Rightarrow> response \<times> state" where
  "chat e req s =
     (case (user_id req, message req) of
        (Some uid, Some msg) \<Rightarrow>
          if falsy (Some uid) \<or> falsy (Some msg)
          then (\<lparr>status = 400, body = ErrorBody ''Provide user_id and message''\<rparr>, s)
          else
            (case rememberName e uid msg s of
               (facts, s2) \<Rightarrow>
                 let tone = detectTone msg in
                 if rx_test whatNameRx True msg
                 then
                   (case obj_get facts ''name'' of
                      Some n \<Rightarrow>
                        if n \<noteq> []
                        then (\<lparr>status = 200, body = ChatBody (''Your name is '' @ n @ ''.'') tone True\<rparr>, s2)
                        else (\<lparr>status = 200, body = ChatBody unknownNameReply tone True\<rparr>, s2)
                    | None \<Rightarrow> (\<lparr>status = 200, body = ChatBody unknownNameReply tone True\<rparr>, s2))
                 else
                   (let prompt = buildPrompt uid msg facts tone in
                    case callLLM e prompt s2 of
                      (llm, s3) \<Rightarrow>
                        (\<lparr>status = 200, body = ChatBody (reply_text llm) tone (simulated llm)\<rparr>,
                         saveHistory e uid msg (reply_text llm) tone s3)))
      | _ \<Rightarrow> (\<lparr>status = 400, body = ErrorBody ''Provide user_id and message''\<rparr>, s))"

definition memoryRoute :: "env \<Rightarrow> string \<Rightarrow> state \<Rightarrow> response \<times> state" where
  "memoryRoute e uid s =
     (case getFacts e uid s of (facts, s') \<Rightarrow> (\<lparr>status = 200, body = FactsBody facts\<rparr>, s'))"

section \<open>The words of the specification\<close>

text \<open>
  The key words of the two tones as the specification lists them, to be compared with the
  two regular expressions of \<open>detectTone\<close>.
\<close>

definition empatheticWords :: "string list" where
  "empatheticWords = [''sad'', ''depressed'', ''unhappy'', ''down'', ''not good'', ''worried'']"

definition playfulWords :: "string list" where
  "playfulWords = [''joke'', ''roast'', ''funny'', ''lol'', ''haha'']"

text \<open>
  The name pattern \<^verbatim>\<open>/my name is ([A-Za-z ]{1,40})/i\<close> in plain terms, to be compared with
  \<open>capturedName\<close>: the first place of the message where \<^verbatim>\<open>my name is\<close> and a space stand, in
  any letter case, followed by at least one letter or space; the name is the run of letters
  and spaces that follows, cut after forty characters and trimmed.
\<close>

definition nameRanges :: "(char \<times> char) list" where
  "nameRanges = [(CHR ''A'', CHR ''Z''), (CHR ''a'', CHR ''z''), (CHR '' '', CHR '' '')]"

definition nameChar :: "char \<Rightarrow> bool" where
  "nameChar c = (c = CHR '' '' \<or> c \<in> set upper_letters \<or> c \<in> set lower_letters)"

definition namePhraseAt :: "string \<Rightarrow> bool" where
  "namePhraseAt t = (map upperChar (take 11 t) = ''MY NAME IS '')"

definition nameRun :: "string \<Rightarrow> string" where
  "nameRun t = takeWhile nameChar (drop 11 t)"

fun findName :: "string \<Rightarrow> string option" where
  "findName [] = None"
| "findName (c # cs) =
     (if namePhraseAt (c # cs) \<and> nameRun (c # cs) \<noteq> []
      then Some (trim (take 40 (nameRun (c # cs))))
      else findName cs)"

text \<open>
  The events that the name recall must not cause: a call of the provider, and an
  \<^verbatim>\<open>INSERT\<close> into the history table.
\<close>

definition isGeneration :: "event \<Rightarrow> bool" where
  "isGeneration ev = (case ev of Generate p \<Rightarrow> True | _ \<Rightarrow> False)"

definition isHistoryWrite :: "event \<Rightarrow> bool" where
  "isHistoryWrite ev = (case ev of Exec (InsertHistory u m r t n) \<Rightarrow> True | _ \<Rightarrow> False)"

section \<open>Stores and environments\<close>

text \<open>
  A store is migrated when its fact table exists, was created with the uniqueness constraint
  and holds at most one row for each pair of user and key.
\<close>

definition migrated :: "state \<Rightarrow> bool" where
  "migrated s =
     (case memory s of
        Some t \<Rightarrow> uniq t \<and> distinct (map factId (rows t))
      | None \<Rightarrow> False)"

definition factRows :: "state \<Rightarrow> fact list" where
  "factRows s = (case memory s of Some t \<Rightarrow> rows t | None \<Rightarrow> [])"

definition newTable :: table where
  "newTable = \<lparr>uniq = True, rows = []\<rparr>"

text \<open>No provider key, no failing statement.\<close>

definition offline :: env where
  "offline = \<lparr>genAI = None, fault = (\<lambda>q. None), now = 0\<rparr>"

text \<open>The copy of the old rows fails, every other statement runs.\<close>

definition diskFull :: env where
  "diskFull = \<lparr>genAI = None,
     fault = (\<lambda>q. if q = CopyMemoryOld then Some ''SQLITE_FULL: database or disk is full'' else None),
     now = 0\<rparr>"

text \<open>A database file that was just created, one of the old shape, and two migrated ones.\<close>

definition freshStore :: state where
  "freshStore = \<lparr>memory = None, memory_old = None, history = None, trace = []\<rparr>"

definition oldStore :: state where
  "oldStore = \<lparr>memory = Some \<lparr>uniq = False, rows = [(''u1'', ''name'', ''Alex'')]\<rparr>,
     memory_old = None, history = Some [], trace = []\<rparr>"

definition readyStore :: state where
  "readyStore = \<lparr>memory = Some newTable, memory_old = None, history = Some [], trace = []\<rparr>"

definition twoFacts :: state where
  "twoFacts = \<lparr>memory = Some \<lparr>uniq = True, rows = [(''u1'', ''name'', ''Alex''), (''u2'', ''name'', ''Sam'')]\<rparr>,
     memory_old = None, history = Some [], trace = []\<rparr>"

text \<open>A provider whose every call throws, and one that answers.\<close>

definition brokenProvider :: env where
  "brokenProvider = \<lparr>genAI = Some (\<lambda>prompt. Failed ''fetch failed''), fault = (\<lambda>q. None), now = 0\<rparr>"

definition liveProvider :: env where
  "liveProvider = \<lparr>genAI = Some (\<lambda>prompt. Generated ''Hello!''), fault = (\<lambda>q. None), now = 0\<rparr>"

text \<open>
  The store after \<open>u1\<close> sent a message that ends in \<^verbatim>\<open>my name is\<close> and two spaces: the name
  captured is one space, trimmed to the empty string.
\<close>

definition emptyName :: state where
  "emptyName = \<lparr>memory = Some \<lparr>uniq = True, rows = [(''u1'', ''name'', [])]\<rparr>,
     memory_old = None, history = Some [], trace = []\<rparr>"

text \<open>
  The reply of the name recall as the specification words it: the known name, or the
  admission of not knowing it. The empty name counts as not known.
\<close>

definition recallReply :: "string option \<Rightarrow> string" where
  "recallReply known =
     (case known of
        Some n \<Rightarrow> if n \<noteq> [] then ''Your name is '' @ n @ ''.'' else unknownNameReply
      | None \<Rightarrow> unknownNameReply)"

text \<open>
  The three ways to ask for the name that \<open>whatNameRx\<close> accepts, written out.
\<close>

definition nameQuestions :: "string list" where
  "nameQuestions = [''what's my name'', ''what is my name'', ''what my name'']"

section \<open>Strings and patterns: basic facts\<close>

lemmas lower_simps = lowerChar_def upper_letters_def lower_letters_def
  kelvinSign_def capitalIDot_def combiningDot_def

lemma startsWith_prefix: "startsWith s t \<longleftrightarrow> prefix t s"
  by (induction s t rule: startsWith.induct) auto

lemma str_includes_sublist: "str_includes s t \<longleftrightarrow> sublist t s"
  by (induction s) (auto simp: startsWith_prefix sublist_Cons_right)

lemma litAt_prefix: "litAt False w s \<longleftrightarrow> prefix w s"
proof (induction w arbitrary: s)
  case Nil
  show ?case by simp
next
  case (Cons p ps)
  show ?case by (cases s) (auto simp: canon_def Cons.IH)
qed

text \<open>A search succeeds exactly when the pattern matches at the start of some suffix.\<close>

lemma rx_exec_suffix:
  "rx_exec r i s \<noteq> None \<longleftrightarrow> (\<exists>t. suffix t s \<and> rx_at r i t [] \<noteq> [])"
  by (induction s) (auto simp: suffix_Cons split: list.splits)

lemma rx_test_suffix: "rx_test r i s \<longleftrightarrow> (\<exists>t. suffix t s \<and> rx_at r i t [] \<noteq> [])"
  unfolding rx_test_def by (rule rx_exec_suffix)

section \<open>Tone detection: the key words\<close>

lemma empatheticRx_at:
  "rx_at empatheticRx False t [] \<noteq> [] \<longleftrightarrow> (\<exists>k \<in> set empatheticWords. prefix k t)"
  by (simp add: empatheticRx_def empatheticWords_def litAt_prefix)

lemma playfulRx_at:
  "rx_at playfulRx False t [] \<noteq> [] \<longleftrightarrow> (\<exists>k \<in> set playfulWords. prefix k t)"
  by (simp add: playfulRx_def playfulWords_def litAt_prefix)

lemma empatheticRx_test:
  "rx_test empatheticRx False s \<longleftrightarrow> (\<exists>k \<in> set empatheticWords. sublist k s)"
  unfolding rx_test_suffix empatheticRx_at sublist_altdef' by blast

lemma playfulRx_test:
  "rx_test playfulRx False s \<longleftrightarrow> (\<exists>k \<in> set playfulWords. sublist k s)"
  unfolding rx_test_suffix playfulRx_at sublist_altdef' by blast

text \<open>
  Claim C2. The tone depends on the message text only and not on the case of its letters:
  a message that contains, once lower-cased, one of the empathetic words as a contiguous
  block is \<open>empathetic\<close>; a message that contains none of them and contains one of the
  playful words is \<open>playful\<close>; every other message is \<open>neutral\<close>.
\<close>

theorem detectTone_keywords:
  "detectTone m =
     (if \<exists>k \<in> set empatheticWords. sublist k (toLowerCase m) then ''empathetic''
      else if \<exists>k \<in> set playfulWords. sublist k (toLowerCase m) then ''playful''
      else ''neutral'')"
  by (simp add: detectTone_def Let_def empatheticRx_test playfulRx_test)

theorem detectTone_keywords_witness:
  "(\<exists>k \<in> set empatheticWords. sublist k (toLowerCase ''I feel DOWN, lol''))
   \<and> detectTone ''I feel DOWN, lol'' = ''empathetic''
   \<and> \<not> (\<exists>k \<in> set empatheticWords. sublist k (toLowerCase ''Tell me a Joke''))
   \<and> (\<exists>k \<in> set playfulWords. sublist k (toLowerCase ''Tell me a Joke''))
   \<and> detectTone ''Tell me a Joke'' = ''playful''
   \<and> \<not> (\<exists>k \<in> set empatheticWords. sublist k (toLowerCase ''what's the weather''))
   \<and> \<not> (\<exists>k \<in> set playfulWords. sublist k (toLowerCase ''what's the weather''))
   \<and> detectTone ''what's the weather'' = ''neutral''
   \<and> toLowerCase (''JO'' @ kelvinSign @ ''E'') = ''joke''
   \<and> detectTone (''JO'' @ kelvinSign @ ''E'') = ''playful''
   \<and> toLowerCase (''L'' @ capitalIDot @ ''ST'') = ''li'' @ combiningDot @ ''st''
   \<and> detectTone (''L'' @ capitalIDot @ ''ST'') = ''neutral''"
  using detectTone_keywords [of "''I feel DOWN, lol''"]
    detectTone_keywords [of "''Tell me a Joke''"]
    detectTone_keywords [of "''what's the weather''"]
    detectTone_keywords [of "''JO'' @ kelvinSign @ ''E''"]
    detectTone_keywords [of "''L'' @ capitalIDot @ ''ST''"]
  by (simp add: empatheticWords_def playfulWords_def lower_simps sublist_code)

section \<open>The fact store\<close>

lemma uniq_upsert [simp]: "uniq (upsert t r) = uniq t"
  by (simp add: upsert_def)





lemma map_of_replace:
  "map_of (map (\<lambda>(k', v'). if k' = k then (k', v) else (k', v')) ob) x =
     (if x = k then map_option (\<lambda>_. v) (map_of ob k) else map_of ob x)"
proof (induction ob arbitrary: x)
  case Nil
  show ?case by simp
next
  case (Cons a ob)
  obtain k0 v0 where a: "a = (k0, v0)" by (cases a)
  show ?case
  proof (cases "k0 = k")
    case True
    then show ?thesis using Cons.IH a by simp
  next
    case False
    then show ?thesis using Cons.IH a by simp
  qed
qed

lemma map_of_insert:
  assumes "map_of ob k = None"
  shows "map_of (takeWhile P ob @ [(k, v)] @ dropWhile P ob) x =
     (if x = k then Some v else map_of ob x)"
proof -
  have split: "map_of ob = map_of (dropWhile P ob) ++ map_of (takeWhile P ob)"
    by (metis map_of_append takeWhile_dropWhile_id)
  have front: "map_of (takeWhile P ob) k = None"
    using assms split by (metis map_add_None)
  show ?thesis
  proof (cases "x = k")
    case True
    then show ?thesis using front by (simp add: map_add_def)
  next
    case False
    have "map_of ob x = (map_of (dropWhile P ob) ++ map_of (takeWhile P ob)) x"
      using split by simp
    then show ?thesis using False by (simp add: map_add_def split: option.splits)
  qed
qed

lemma obj_get_set:
  "obj_get (obj_set ob k v) k' =
     (if k = ''__proto__'' then obj_get ob k'
      else if k' = k then Some v else obj_get ob k')"
proof (cases "k = ''__proto__''")
  case True
  then show ?thesis by (simp add: obj_set_def)
next
  case proto: False
  show ?thesis
  proof (cases "k \<in> set (map fst ob)")
    case True
    then obtain y where "map_of ob k = Some y"
      by (metis map_of_eq_None_iff not_Some_eq set_map)
    then show ?thesis using True proto by (simp add: obj_get_def obj_set_def map_of_replace)
  next
    case False
    then have none: "map_of ob k = None" by (simp add: map_of_eq_None_iff)
    show ?thesis
    proof (cases "isArrayIndex k")
      case index: False
      then show ?thesis using False proto none
        by (cases "map_of ob k'") (auto simp: obj_get_def obj_set_def map_add_def)
    next
      case index: True
      have "obj_set ob k v = takeWhile (indexBelow k) ob @ [(k, v)] @ dropWhile (indexBelow k) ob"
        using False proto index by (simp add: obj_set_def)
      then show ?thesis using proto map_of_insert [OF none] by (simp add: obj_get_def)
    qed
  qed
qed

lemma obj_get_foldl:
  "k \<noteq> ''__proto__'' \<Longrightarrow>
   obj_get (foldl (\<lambda>facts r. obj_set facts (fst r) (snd r)) acc rs) k =
     (case map_of (rev rs) k of Some v \<Rightarrow> Some v | None \<Rightarrow> obj_get acc k)"
  by (induction rs arbitrary: acc) (auto simp: obj_get_set split: option.splits)

lemma obj_get_foldl_proto:
  "obj_get (foldl (\<lambda>facts r. obj_set facts (fst r) (snd r)) acc rs) ''__proto__'' =
     obj_get acc ''__proto__''"
  by (induction rs arbitrary: acc) (auto simp: obj_get_set)

lemma distinct_map_insort_key:
  "distinct (map f (insort_key g x xs)) \<longleftrightarrow> f x \<notin> f ` set xs \<and> distinct (map f xs)"
  by (induction xs) (auto simp: set_insort_key)

lemma distinct_map_sort_key: "distinct (map f (sort_key g xs)) \<longleftrightarrow> distinct (map f xs)"
  by (induction xs) (auto simp: distinct_map_insort_key)

lemma distinct_userRows:
  "distinct (map factId rs) \<Longrightarrow> distinct (map fst (map snd (filter (\<lambda>r. fst r = u) rs)))"
  by (induction rs) (force simp: factId_def)+

lemma distinct_selectFacts:
  "distinct (map factId (rows t)) \<Longrightarrow> distinct (map fst (selectFacts u t))"
  using distinct_userRows [of "rows t" u]
  by (simp add: selectFacts_def Let_def distinct_map_sort_key del: map_map)

lemma set_selectFacts: "set (selectFacts u t) = {(k, v). (u, k, v) \<in> set (rows t)}"
  by (force simp: selectFacts_def Let_def)

lemma getFacts_state: "snd (getFacts e u s) = emit (Exec (SelectFacts u)) s"
  by (auto simp: getFacts_def db_all_def db_run_def Let_def split: option.splits sum.splits)

lemma getFacts_ok:
  "fault e (SelectFacts u) = None \<Longrightarrow> memory s = Some t \<Longrightarrow>
   fst (getFacts e u s) = foldl (\<lambda>facts r. obj_set facts (fst r) (snd r)) [] (selectFacts u t)"
  by (simp add: getFacts_def db_all_def db_run_def emit_def)

lemma getFacts_lookup:
  assumes "fault e (SelectFacts u) = None" and "memory s = Some t"
    and "distinct (map factId (rows t))" and "(u, k, v) \<in> set (rows t)"
    and "k \<noteq> ''__proto__''"
  shows "obj_get (fst (getFacts e u s)) k = Some v"
proof -
  have d: "distinct (map fst (rev (selectFacts u t)))"
    using distinct_selectFacts [OF assms(3), of u] by (simp add: rev_map [symmetric])
  have "(k, v) \<in> set (rev (selectFacts u t))"
    using assms(4) by (simp add: set_selectFacts)
  then have "map_of (rev (selectFacts u t)) k = Some v"
    using d by (rule map_of_is_SomeI [rotated])
  then show ?thesis
    by (simp add: getFacts_ok [OF assms(1,2)] obj_get_foldl [OF assms(5)])
qed

lemma getFacts_absent:
  assumes "memory s = Some t" and "\<forall>r \<in> set (rows t). factId r \<noteq> (u, k)"
  shows "obj_get (fst (getFacts e u s)) k = None"
proof (cases "fault e (SelectFacts u)")
  case None
  have "k \<notin> fst ` set (rev (selectFacts u t))"
    using assms(2) by (force simp: set_selectFacts factId_def)
  then have m: "map_of (rev (selectFacts u t)) k = None"
    by (simp add: map_of_eq_None_iff)
  show ?thesis
  proof (cases "k = ''__proto__''")
    case True
    then show ?thesis
      by (simp add: getFacts_ok [OF None assms(1)] obj_get_foldl_proto) (simp add: obj_get_def)
  next
    case False
    then show ?thesis
      using m by (simp add: getFacts_ok [OF None assms(1)] obj_get_foldl) (simp add: obj_get_def)
  qed
next
  case (Some msg)
  then show ?thesis
    by (simp add: getFacts_def db_all_def db_run_def obj_get_def)
qed

lemma sql_run_trace: "sql_run q s = Inr s' \<Longrightarrow> trace s' = trace s"
  by (cases q) (auto split: option.splits if_splits)

lemma sql_run_history:
  "sql_run q s = Inr s' \<Longrightarrow> (\<forall>u m r t n. q \<noteq> InsertHistory u m r t n) \<Longrightarrow> q \<noteq> CreateHistory \<Longrightarrow>
   history s' = history s"
  by (cases q) (auto split: option.splits if_splits)

lemma db_run_unheard_trace:
  "\<exists>tail. trace (db_run_unheard e q s) = trace s @ Exec q # tail
     \<and> (\<forall>ev \<in> set tail. \<exists>msg. ev = Uncaught msg)"
proof (cases "fault e q")
  case (Some msg)
  then show ?thesis by (simp add: db_run_unheard_def db_run_def emit_def)
next
  case None
  show ?thesis
  proof (cases "sql_run q (emit (Exec q) s)")
    case (Inl msg)
    then show ?thesis using None by (simp add: db_run_unheard_def db_run_def emit_def)
  next
    case (Inr s')
    then have "trace s' = trace s @ [Exec q]" using sql_run_trace [OF Inr] by (simp add: emit_def)
    then show ?thesis using None Inr by (simp add: db_run_unheard_def db_run_def)
  qed
qed



lemma saveFact_history: "history (saveFact e u k v s) = history s"
  by (auto simp: saveFact_def db_run_unheard_def db_run_def emit_def Let_def split: option.splits)

lemma saveFact_trace:
  "\<exists>tail. trace (saveFact e u k v s) = trace s @ Exec (UpsertFact u k v) # tail
     \<and> (\<forall>ev \<in> set tail. \<exists>msg. ev = Uncaught msg)"
  unfolding saveFact_def by (rule db_run_unheard_trace)





text \<open>
  The facts of a user come in the order of the language: array indices first, then the
  other keys in the order of the rows that the database returns, which on a migrated table
  is the order of the keys.
\<close>

lemma getFacts_order:
  "fst (getFacts offline ''u1''
      (saveFact offline ''u1'' ''10'' ''c'' (saveFact offline ''u1'' ''2'' ''b''
        (saveFact offline ''u1'' ''alpha'' ''a'' (saveFact offline ''u1'' ''name'' ''Alex'' readyStore)))))
     = [(''2'', ''b''), (''10'', ''c''), (''alpha'', ''a''), (''name'', ''Alex'')]"
  by code_simp

section \<open>The migration\<close>

lemma foldl_insertOrIgnore_distinct:
  "uniq t \<Longrightarrow> distinct (map factId (rows t @ rs)) \<Longrightarrow>
   foldl insertOrIgnore t rs = t\<lparr>rows := rows t @ rs\<rparr>"
proof (induction rs arbitrary: t)
  case Nil
  then show ?case by simp
next
  case (Cons r rs)
  have "insertOrIgnore t r = t\<lparr>rows := rows t @ [r]\<rparr>"
    using Cons.prems by (auto simp: insertOrIgnore_def)
  moreover have "foldl insertOrIgnore (t\<lparr>rows := rows t @ [r]\<rparr>) rs
      = (t\<lparr>rows := rows t @ [r]\<rparr>)\<lparr>rows := rows (t\<lparr>rows := rows t @ [r]\<rparr>) @ rs\<rparr>"
    using Cons.prems by (intro Cons.IH) auto
  ultimately show ?case by simp
qed

lemma insertOrIgnore_inv:
  "uniq t \<Longrightarrow> distinct (map factId (rows t)) \<Longrightarrow>
   uniq (insertOrIgnore t r) \<and> distinct (map factId (rows (insertOrIgnore t r)))"
  by (auto simp: insertOrIgnore_def)

lemma foldl_insertOrIgnore_inv:
  "uniq t \<Longrightarrow> distinct (map factId (rows t)) \<Longrightarrow>
   uniq (foldl insertOrIgnore t rs) \<and> distinct (map factId (rows (foldl insertOrIgnore t rs)))"
proof (induction rs arbitrary: t)
  case Nil
  then show ?case by simp
next
  case (Cons r rs)
  then show ?case using insertOrIgnore_inv [of t r] by simp
qed

lemma includes_noSuchTable: "str_includes (noSuchTable n) ''no such table''"
  by (simp add: noSuchTable_def)

lemma not_includes_already:
  "\<not> str_includes ''SQLITE_ERROR: there is already another table or index with this name: memory_old'' ''no such table''"
  by (simp add: str_includes_sublist sublist_code)

lemma migrate_both_tables:
  assumes "\<forall>q. fault e q = None" and "memory s = Some t" and "memory_old s = Some old"
  shows "memory (migrateMemoryTable e s) = Some t \<and> memory_old (migrateMemoryTable e s) = Some old"
  using assms not_includes_already by (simp add: migrateMemoryTable_def db_run_def emit_def)

lemma migrate_memory_only:
  assumes "\<forall>q. fault e q = None" and "memory s = Some t" and "memory_old s = None"
  shows "memory (migrateMemoryTable e s) = Some (foldl insertOrIgnore newTable (rows t))
     \<and> memory_old (migrateMemoryTable e s) = None"
  using assms by (simp add: migrateMemoryTable_def db_run_def emit_def newTable_def)

lemma migrate_old_only:
  assumes "\<forall>q. fault e q = None" and "memory s = None" and "memory_old s = Some old"
  shows "memory (migrateMemoryTable e s) = Some (foldl insertOrIgnore newTable (rows old))
     \<and> memory_old (migrateMemoryTable e s) = None"
  using assms includes_noSuchTable
  by (simp add: migrateMemoryTable_def db_run_def emit_def newTable_def)

lemma migrate_no_table:
  assumes "\<forall>q. fault e q = None" and "memory s = None" and "memory_old s = None"
  shows "memory (migrateMemoryTable e s) = Some newTable \<and> memory_old (migrateMemoryTable e s) = None"
  using assms includes_noSuchTable
  by (simp add: migrateMemoryTable_def db_run_def emit_def newTable_def)

lemma migrate_identity:
  assumes "\<forall>q. fault e q = None" and "memory s = Some t" and "uniq t"
    and "distinct (map factId (rows t))"
  shows "memory (migrateMemoryTable e s) = Some t"
proof (cases "memory_old s")
  case None
  have "foldl insertOrIgnore newTable (rows t) = newTable\<lparr>rows := rows newTable @ rows t\<rparr>"
    using assms(4) by (intro foldl_insertOrIgnore_distinct) (simp_all add: newTable_def)
  also have "\<dots> = t" using assms(3) by (simp add: newTable_def)
  finally show ?thesis using migrate_memory_only [OF assms(1,2) None] by simp
next
  case (Some old)
  then show ?thesis using migrate_both_tables [OF assms(1,2)] by simp
qed

lemma newTable_inv: "uniq newTable \<and> distinct (map factId (rows newTable))"
  by (simp add: newTable_def)

lemma migrate_twice:
  assumes "\<forall>q. fault e q = None"
  shows "memory (migrateMemoryTable e (migrateMemoryTable e s)) = memory (migrateMemoryTable e s)"
proof -
  let ?s' = "migrateMemoryTable e s"
  have inv: "\<And>rs. uniq (foldl insertOrIgnore newTable rs)
      \<and> distinct (map factId (rows (foldl insertOrIgnore newTable rs)))"
    using newTable_inv by (intro foldl_insertOrIgnore_inv) simp_all
  show ?thesis
  proof (cases "memory s")
    case None
    show ?thesis
    proof (cases "memory_old s")
      case None
      with \<open>memory s = None\<close> have "memory ?s' = Some newTable"
        using migrate_no_table [OF assms] by simp
      then show ?thesis using migrate_identity [OF assms, of ?s' newTable] newTable_inv by simp
    next
      case (Some old)
      with \<open>memory s = None\<close> have "memory ?s' = Some (foldl insertOrIgnore newTable (rows old))"
        using migrate_old_only [OF assms] by simp
      then show ?thesis using migrate_identity [OF assms, of ?s'] inv by simp
    qed
  next
    case (Some t)
    show ?thesis
    proof (cases "memory_old s")
      case None
      with Some have "memory ?s' = Some (foldl insertOrIgnore newTable (rows t))"
        using migrate_memory_only [OF assms] by simp
      then show ?thesis using migrate_identity [OF assms, of ?s'] inv by simp
    next
      case (Some old)
      with \<open>memory s = Some t\<close> have "memory ?s' = Some t \<and> memory_old ?s' = Some old"
        using migrate_both_tables [OF assms] by simp
      then show ?thesis using migrate_both_tables [OF assms, of ?s' t old] by simp
    qed
  qed
qed

text \<open>
  Claim C6. On a store that is already migrated, a run of the migration in which no statement
  fails leaves the fact table as it was: the same rows in the same order, the constraint in
  place.
\<close>

theorem migrate_already_migrated:
  assumes "migrated s" and "\<forall>q. fault e q = None"
  shows "memory (migrateMemoryTable e s) = memory s
    \<and> factRows (migrateMemoryTable e s) = factRows s
    \<and> length (factRows (migrateMemoryTable e s)) = length (factRows s)
    \<and> migrated (migrateMemoryTable e s)"
proof -
  obtain t where t: "memory s = Some t" "uniq t" "distinct (map factId (rows t))"
    using assms(1) by (auto simp: migrated_def split: option.splits)
  have "memory (migrateMemoryTable e s) = memory s"
    using migrate_identity [OF assms(2) t] t(1) by simp
  then show ?thesis using assms(1) by (simp add: factRows_def migrated_def)
qed

theorem migrate_already_migrated_witness:
  "migrated twoFacts \<and> (\<forall>q. fault offline q = None)
   \<and> factRows (migrateMemoryTable offline twoFacts) = [(''u1'', ''name'', ''Alex''), (''u2'', ''name'', ''Sam'')]
   \<and> memory (migrateMemoryTable offline twoFacts) = memory twoFacts
   \<and> migrated (migrateMemoryTable offline twoFacts)"
proof -
  have h1: "migrated twoFacts" by (simp add: migrated_def twoFacts_def factId_def)
  have h2: "\<forall>q. fault offline q = None" by (simp add: offline_def)
  have r: "factRows twoFacts = [(''u1'', ''name'', ''Alex''), (''u2'', ''name'', ''Sam'')]"
    by (simp add: factRows_def twoFacts_def)
  show ?thesis using migrate_already_migrated [OF h1 h2] h1 h2 r by simp
qed

subsection \<open>Where the migration stops\<close>

lemma migrate_check_fails:
  "fault e PragmaTableInfo = Some msg \<Longrightarrow>
   migrateMemoryTable e s =
     emit (ConsoleError (''Error checking memory table: '' @ msg)) (emit (Exec PragmaTableInfo) s)"
  by (simp add: migrateMemoryTable_def db_run_def)

lemma migrate_rename_fails:
  "fault e PragmaTableInfo = None \<Longrightarrow> fault e RenameMemory = Some msg \<Longrightarrow>
   \<not> str_includes msg ''no such table'' \<Longrightarrow>
   migrateMemoryTable e s =
     emit (ConsoleError (''Error renaming memory table: '' @ msg))
       (emit (Exec RenameMemory) (emit (Exec PragmaTableInfo) s))"
  by (simp add: migrateMemoryTable_def db_run_def)

lemma migrate_create_fails:
  "fault e PragmaTableInfo = None \<Longrightarrow> fault e RenameMemory = None \<Longrightarrow> memory s = None \<Longrightarrow>
   fault e CreateMemory = Some msg \<Longrightarrow>
   migrateMemoryTable e s =
     emit (ConsoleError (''Error creating new memory table: '' @ msg))
       (emit (Exec CreateMemory) (emit (Exec RenameMemory) (emit (Exec PragmaTableInfo) s)))"
  using includes_noSuchTable by (simp add: migrateMemoryTable_def db_run_def emit_def)

lemma migrate_copy_fails:
  "fault e PragmaTableInfo = None \<Longrightarrow> fault e RenameMemory = None \<Longrightarrow> memory s = Some t \<Longrightarrow>
   memory_old s = None \<Longrightarrow> fault e CreateMemory = None \<Longrightarrow>
   fault e CopyMemoryOld = Some msg \<Longrightarrow> fault e DropMemoryOld = None \<Longrightarrow>
   migrateMemoryTable e s =
     s\<lparr>memory := Some newTable, memory_old := None,
       trace := trace s @ [Exec PragmaTableInfo, Exec RenameMemory, Exec CreateMemory,
         Exec CopyMemoryOld, ConsoleError (''Error copying data: '' @ msg), Exec DropMemoryOld,
         ConsoleLog (checkMark @ '' Memory table migrated successfully'')]\<rparr>"
  by (simp add: migrateMemoryTable_def db_run_def emit_def newTable_def)

text \<open>
  Claim C5. A rename that fails because there is no table is passed over, and a failure of
  the table check, of the rename or of the create stops the migration (the lemmas above).
  A failure of the copy does not: it is logged, the drop of the old table is sent all the
  same and the success line is printed. On a new database file the copy fails for want of
  \<open>memory_old\<close> and the drop follows; when the copy of an old table fails, the drop deletes
  the rows that were not copied.
\<close>

theorem migrate_copy_failure_drops:
  "trace (migrateMemoryTable offline freshStore) =
     [Exec PragmaTableInfo, Exec RenameMemory, Exec CreateMemory, Exec CopyMemoryOld,
      ConsoleError ''Error copying data: SQLITE_ERROR: no such table: memory_old'',
      Exec DropMemoryOld, ConsoleLog (checkMark @ '' Memory table migrated successfully'')]
   \<and> factRows oldStore = [(''u1'', ''name'', ''Alex'')]
   \<and> trace (migrateMemoryTable diskFull oldStore) =
     [Exec PragmaTableInfo, Exec RenameMemory, Exec CreateMemory, Exec CopyMemoryOld,
      ConsoleError ''Error copying data: SQLITE_FULL: database or disk is full'',
      Exec DropMemoryOld, ConsoleLog (checkMark @ '' Memory table migrated successfully'')]
   \<and> factRows (migrateMemoryTable diskFull oldStore) = []
   \<and> memory_old (migrateMemoryTable diskFull oldStore) = None"
proof -
  have a: "trace (migrateMemoryTable offline freshStore) =
     [Exec PragmaTableInfo, Exec RenameMemory, Exec CreateMemory, Exec CopyMemoryOld,
      ConsoleError ''Error copying data: SQLITE_ERROR: no such table: memory_old'',
      Exec DropMemoryOld, ConsoleLog (checkMark @ '' Memory table migrated successfully'')]"
    by code_simp
  have b: "factRows oldStore = [(''u1'', ''name'', ''Alex'')]"
    by (simp add: factRows_def oldStore_def)
  have c: "trace (migrateMemoryTable diskFull oldStore) =
     [Exec PragmaTableInfo, Exec RenameMemory, Exec CreateMemory, Exec CopyMemoryOld,
      ConsoleError ''Error copying data: SQLITE_FULL: database or disk is full'',
      Exec DropMemoryOld, ConsoleLog (checkMark @ '' Memory table migrated successfully'')]"
    by code_simp
  have d: "factRows (migrateMemoryTable diskFull oldStore) = []"
    by code_simp
  have e: "memory_old (migrateMemoryTable diskFull oldStore) = None"
    by code_simp
  from a b c d e show ?thesis by simp
qed

section \<open>The offline replies\<close>

lemma empathy_hint_lacks_word: "\<not> str_includes (toneHint ''empathetic'') ''empathetic''"
  by (simp add: toneHint_def str_includes_sublist sublist_code)

lemma callLLM_offline:
  "genAI e = None \<Longrightarrow>
   callLLM e prompt s =
     (\<lparr>reply_text =
         (if sublist ''empathetic'' prompt then empatheticReply
          else if sublist ''playful'' prompt then playfulReply
          else neutralReply),
       simulated = True\<rparr>, s)"
  by (simp add: callLLM_def str_includes_sublist)

text \<open>
  Claim C1. Without a provider key the reply does not follow the tone. The guidance sentence
  of the empathetic tone reads \<open>Respond with empathy\<close> and does not contain the word
  \<open>empathetic\<close> that \<open>callLLM\<close> looks for: the message \<open>I am sad\<close> of a user without facts is
  classified empathetic and answered with the neutral sentence. The search also runs over
  the message inside the prompt: \<open>I am so playful today\<close> is classified neutral and answered
  with the playful sentence.
\<close>

theorem offline_reply_ignores_empathetic_tone:
  "detectTone ''I am sad'' = ''empathetic''
   \<and> fst (callLLM offline (buildPrompt ''u1'' ''I am sad'' [] (detectTone ''I am sad'')) readyStore)
       = \<lparr>reply_text = neutralReply, simulated = True\<rparr>
   \<and> fst (chat offline \<lparr>user_id = Some ''u1'', message = Some ''I am sad''\<rparr> readyStore)
       = \<lparr>status = 200, body = ChatBody neutralReply ''empathetic'' True\<rparr>
   \<and> neutralReply \<noteq> empatheticReply
   \<and> detectTone ''I am so playful today'' = ''neutral''
   \<and> fst (chat offline \<lparr>user_id = Some ''u1'', message = Some ''I am so playful today''\<rparr> readyStore)
       = \<lparr>status = 200, body = ChatBody playfulReply ''neutral'' True\<rparr>
   \<and> playfulReply \<noteq> neutralReply"
proof -
  have a: "detectTone ''I am sad'' = ''empathetic''" by code_simp
  have b: "fst (callLLM offline (buildPrompt ''u1'' ''I am sad'' [] ''empathetic'') readyStore)
       = \<lparr>reply_text = neutralReply, simulated = True\<rparr>" by code_simp
  have c: "fst (chat offline \<lparr>user_id = Some ''u1'', message = Some ''I am sad''\<rparr> readyStore)
       = \<lparr>status = 200, body = ChatBody neutralReply ''empathetic'' True\<rparr>" by code_simp
  have d: "neutralReply \<noteq> empatheticReply" by (simp add: neutralReply_def empatheticReply_def)
  have e: "detectTone ''I am so playful today'' = ''neutral''" by code_simp
  have f: "fst (chat offline \<lparr>user_id = Some ''u1'', message = Some ''I am so playful today''\<rparr> readyStore)
       = \<lparr>status = 200, body = ChatBody playfulReply ''neutral'' True\<rparr>" by code_simp
  have g: "playfulReply \<noteq> neutralReply" by (simp add: neutralReply_def playfulReply_def)
  from a b c d e f g show ?thesis by simp
qed

section \<open>The name question\<close>

text \<open>
  The pattern of the name question succeeds exactly on the messages that contain, letter
  case aside, one of the three questions.
\<close>

lemma litAt_append: "litAt i (a @ b) s \<longleftrightarrow> litAt i a s \<and> litAt i b (drop (length a) s)"
proof (induction a arbitrary: s)
  case Nil
  show ?case by simp
next
  case (Cons p ps)
  show ?case by (cases s) (auto simp: Cons.IH)
qed

lemma litAt_upper: "litAt True w s \<longleftrightarrow> prefix (map upperChar w) (map upperChar s)"
proof (induction w arbitrary: s)
  case Nil
  show ?case by simp
next
  case (Cons p ps)
  show ?case by (cases s) (auto simp: canon_def Cons.IH)
qed

lemma whatNameRx_at:
  "rx_at whatNameRx True t [] \<noteq> [] \<longleftrightarrow> (\<exists>k \<in> set nameQuestions. litAt True k t)"
proof -
  define W where "W = ''what''"
  define Q where "Q = [CHR 0x27]"
  define I where "I = '' i''"
  define S where "S = ''s''"
  define N where "N = '' my name''"
  have q: "nameQuestions = [W @ Q @ S @ N, W @ I @ S @ N, W @ N]"
    by (simp add: nameQuestions_def W_def Q_def I_def S_def N_def)
  have r: "whatNameRx = Seq (Lit W) (Seq (Opt (Grp 1 (Seq (Grp 2 (Alt (Lit Q) (Lit I))) (Lit S))))
       (Seq (Lit N) (Opt (Lit ''?''))))"
    by (simp add: whatNameRx_def W_def Q_def I_def S_def N_def)
  show ?thesis
    unfolding q r by (auto simp add: litAt_append simp del: litAt.simps)
qed

lemma whatNameRx_test:
  "rx_test whatNameRx True m \<longleftrightarrow>
     (\<exists>k \<in> set nameQuestions. sublist (map upperChar k) (map upperChar m))"
proof -
  have "rx_test whatNameRx True m \<longleftrightarrow>
      (\<exists>t. suffix t m \<and> (\<exists>k \<in> set nameQuestions. prefix (map upperChar k) (map upperChar t)))"
    unfolding rx_test_suffix whatNameRx_at litAt_upper ..
  also have "\<dots> \<longleftrightarrow> (\<exists>k \<in> set nameQuestions. \<exists>t. suffix t m \<and> prefix (map upperChar k) (map upperChar t))"
    by blast
  also have "\<dots> \<longleftrightarrow> (\<exists>k \<in> set nameQuestions. sublist (map upperChar k) (map upperChar m))"
  proof -
    have "(\<exists>t. suffix t m \<and> prefix k' (map upperChar t)) \<longleftrightarrow> sublist k' (map upperChar m)" for k'
    proof
      assume "\<exists>t. suffix t m \<and> prefix k' (map upperChar t)"
      then obtain t where "suffix t m" "prefix k' (map upperChar t)" by blast
      then have "suffix (map upperChar t) (map upperChar m)" by (auto simp: suffix_def)
      with \<open>prefix k' (map upperChar t)\<close> show "sublist k' (map upperChar m)"
        unfolding sublist_altdef' by blast
    next
      assume "sublist k' (map upperChar m)"
      then obtain ps ss where "map upperChar m = ps @ k' @ ss" by (auto simp: sublist_def)
      then have "map upperChar (drop (length ps) m) = k' @ ss"
        by (metis append_eq_conv_conj drop_map)
      then have "prefix k' (map upperChar (drop (length ps) m))" by simp
      moreover have "suffix (drop (length ps) m) m" by (rule suffix_drop)
      ultimately show "\<exists>t. suffix t m \<and> prefix k' (map upperChar t)" by blast
    qed
    then show ?thesis by simp
  qed
  finally show ?thesis .
qed

section \<open>The name pattern\<close>

text \<open>
  A repetition of a character class takes the longest run first and gives back one
  character at a time; the search takes the first place where the pattern matches.
\<close>

lemma cls_step:
  "rx_at (Cls rs) i s c = (if s \<noteq> [] \<and> inClass i rs (hd s) then [(tl s, c)] else [])"
  by (cases s) auto

lemma rx_rep_single:
  assumes step: "\<And>s c. step s c = (if s \<noteq> [] \<and> P (hd s) then [(tl s, c)] else [])"
  shows "rx_rep lo hi step s c =
     map (\<lambda>j. (drop j s, c)) (rev [lo ..< Suc (min hi (length (takeWhile P s)))])"
proof (induction hi arbitrary: lo s)
  case 0
  show ?case by (cases lo) simp_all
next
  case (Suc hi)
  show ?case
  proof (cases "s \<noteq> [] \<and> P (hd s)")
    case False
    then have "takeWhile P s = []" by (cases s) auto
    moreover have "step s c = []" using False by (simp add: step)
    ultimately show ?thesis by (cases lo) simp_all
  next
    case True
    then obtain x xs where s: "s = x # xs" and x: "P x" by (cases s) auto
    let ?m = "min hi (length (takeWhile P xs))"
    have len: "min (Suc hi) (length (takeWhile P s)) = Suc ?m"
      using s x by simp
    have "step s c = [(xs, c)]" using s x by (simp add: step)
    then have unfold: "rx_rep lo (Suc hi) step s c =
        rx_rep (lo - 1) hi step xs c @ (if lo = 0 then [(s, c)] else [])"
      by simp
    show ?thesis
    proof (cases lo)
      case 0
      have "[0 ..< Suc (Suc ?m)] = 0 # map Suc [0 ..< Suc ?m]"
        by (simp add: upt_conv_Cons map_Suc_upt del: upt_Suc)
      then show ?thesis unfolding unfold len Suc.IH using 0 s
        by (simp add: rev_map comp_def del: upt_Suc)
    next
      case (Suc l)
      have "[Suc l ..< Suc (Suc ?m)] = map Suc [l ..< Suc ?m]"
        by (simp add: map_Suc_upt del: upt_Suc)
      then show ?thesis unfolding unfold len Suc.IH using Suc s
        by (simp add: rev_map comp_def del: upt_Suc)
    qed
  qed
qed

lemma rx_rep_cls:
  "rx_rep lo hi (rx_at (Cls rs) i) s c =
     map (\<lambda>j. (drop j s, c)) (rev [lo ..< Suc (min hi (length (takeWhile (inClass i rs) s)))])"
  by (rule rx_rep_single) (rule cls_step)


lemma upper_letters_codes:
  "c \<in> set upper_letters \<longleftrightarrow> (65 :: nat) \<le> of_char c \<and> (of_char c :: nat) \<le> 90"
proof
  assume "c \<in> set upper_letters"
  then show "(65 :: nat) \<le> of_char c \<and> (of_char c :: nat) \<le> 90"
    by (auto simp: upper_letters_def)
next
  assume a: "(65 :: nat) \<le> of_char c \<and> (of_char c :: nat) \<le> 90"
  then have "(of_char c :: nat) \<in> {65 ..< 91}" by simp
  moreover have "{65 ..< 91 :: nat} = of_char ` set upper_letters"
    unfolding atLeastLessThan_upt by (simp add: upper_letters_def upt_rec_numeral)
  ultimately obtain d where "d \<in> set upper_letters" and "(of_char c :: nat) = of_char d"
    by blast
  then show "c \<in> set upper_letters" by simp
qed

lemma lower_letters_codes:
  "c \<in> set lower_letters \<longleftrightarrow> (97 :: nat) \<le> of_char c \<and> (of_char c :: nat) \<le> 122"
proof
  assume "c \<in> set lower_letters"
  then show "(97 :: nat) \<le> of_char c \<and> (of_char c :: nat) \<le> 122"
    by (auto simp: lower_letters_def)
next
  assume a: "(97 :: nat) \<le> of_char c \<and> (of_char c :: nat) \<le> 122"
  then have "(of_char c :: nat) \<in> {97 ..< 123}" by simp
  moreover have "{97 ..< 123 :: nat} = of_char ` set lower_letters"
    unfolding atLeastLessThan_upt by (simp add: lower_letters_def upt_rec_numeral)
  ultimately obtain d where "d \<in> set lower_letters" and "(of_char c :: nat) = of_char d"
    by blast
  then show "c \<in> set lower_letters" by simp
qed


lemma upperChar_cases: "upperChar c = c \<or> c \<in> set lower_letters \<and> upperChar c \<in> set upper_letters"
  by (auto simp: upperChar_def upper_letters_def lower_letters_def split: option.splits if_splits)

lemma lowerChar_cases: "lowerChar c = c \<or> c \<in> set upper_letters \<and> lowerChar c \<in> set lower_letters"
  by (auto simp: lowerChar_def upper_letters_def lower_letters_def split: option.splits if_splits)

lemma inRanges_name: "inRanges nameRanges c \<longleftrightarrow> nameChar c"
proof -
  have "(c = CHR '' '') \<longleftrightarrow> (32 :: nat) \<le> of_char c \<and> (of_char c :: nat) \<le> 32"
  proof
    assume "c = CHR '' ''" then show "(32 :: nat) \<le> of_char c \<and> (of_char c :: nat) \<le> 32" by simp
  next
    assume "(32 :: nat) \<le> of_char c \<and> (of_char c :: nat) \<le> 32"
    then have "(of_char c :: nat) = of_char (CHR '' '')" by simp
    then show "c = CHR '' ''" by (simp only: of_char_eq_iff)
  qed
  then show ?thesis
    by (auto simp: inRanges_def nameRanges_def nameChar_def upper_letters_codes lower_letters_codes)
qed

lemma inClass_name: "inClass True nameRanges c \<longleftrightarrow> nameChar c"
proof -
  have u: "nameChar (upperChar c) \<Longrightarrow> nameChar c"
    using upperChar_cases [of c] by (auto simp: nameChar_def)
  have l: "nameChar (lowerChar c) \<Longrightarrow> nameChar c"
    using lowerChar_cases [of c] by (auto simp: nameChar_def)
  show ?thesis using u l by (auto simp: inClass_def inRanges_name)
qed

lemma prefix_take: "prefix w ys \<longleftrightarrow> take (length w) ys = w"
proof
  assume "prefix w ys"
  then show "take (length w) ys = w" by (auto simp: prefix_def)
next
  assume "take (length w) ys = w"
  then show "prefix w ys" by (metis take_is_prefix)
qed

lemma phrase_upper: "litAt True ''my name is '' t \<longleftrightarrow> namePhraseAt t"
proof -
  have up: "map upperChar ''my name is '' = ''MY NAME IS ''"
    by (simp add: upperChar_def upper_letters_def lower_letters_def)
  have "take (length ''MY NAME IS '') (map upperChar t) = map upperChar (take 11 t)"
    by (simp add: take_map eval_nat_numeral)
  then show ?thesis unfolding litAt_upper up namePhraseAt_def prefix_take by simp
qed

lemma nameRx_eq: "nameRx = Seq (Lit ''my name is '') (Grp 1 (Rep 1 40 (Cls nameRanges)))"
  by (simp add: nameRx_def nameRanges_def)

lemma nameRx_at:
  "rx_at nameRx True t [] =
     (if namePhraseAt t
      then map (\<lambda>j. (drop j (drop 11 t), [(1, take j (drop 11 t))]))
             (rev [1 ..< Suc (min 40 (length (nameRun t)))])
      else [])"
proof (cases "litAt True ''my name is '' t")
  case False
  then have "rx_at nameRx True t [] = []"
    by (simp only: nameRx_eq rx_at.simps if_False list.map concat.simps)
  then show ?thesis using False by (simp only: phrase_upper if_False)
next
  case True
  let ?d = "drop 11 t"
  let ?m = "min 40 (length (nameRun t))"
  let ?js = "rev [1 ..< Suc ?m]"
  have P: "inClass True nameRanges = nameChar" by (rule ext) (rule inClass_name)
  have len: "length ''my name is '' = 11" by (simp add: eval_nat_numeral)
  have "rx_at nameRx True t [] =
      map (\<lambda>(s', c'). (s', (1, take (length ?d - length s') ?d) # c'))
        (rx_rep 1 40 (rx_at (Cls nameRanges) True) ?d [])"
    using True
    by (simp only: nameRx_eq rx_at.simps if_True list.map concat.simps append_Nil2 split len)
  also have "\<dots> = map (\<lambda>j. (drop j ?d, [(1, take (length ?d - length (drop j ?d)) ?d)])) ?js"
    by (simp only: rx_rep_cls P nameRun_def map_map comp_def split)
  also have "\<dots> = map (\<lambda>j. (drop j ?d, [(1, take j ?d)])) ?js"
  proof (rule map_cong [OF refl])
    fix j
    assume "j \<in> set ?js"
    then have "j < Suc ?m" by (simp only: set_rev set_upt atLeastLessThan_iff)
    then have "j \<le> ?m" by arith
    moreover have "length (nameRun t) \<le> length ?d"
      unfolding nameRun_def by (rule length_takeWhile_le)
    ultimately have "j \<le> length ?d" by simp
    then have "length ?d - length (drop j ?d) = j" by simp
    then show "(drop j ?d, [(1 :: nat, take (length ?d - length (drop j ?d)) ?d)]) = (drop j ?d, [(1, take j ?d)])"
      by simp
  qed
  finally show ?thesis using True by (simp only: phrase_upper if_True)
qed

lemma take_run: "take (min n (length (takeWhile P xs))) xs = take n (takeWhile P xs)"
  by (metis take_take takeWhile_eq_take)

lemma nameRx_first:
  "(case rx_at nameRx True t [] of [] \<Rightarrow> None | (_, c) # _ \<Rightarrow> Some c) =
     (if namePhraseAt t \<and> nameRun t \<noteq> [] then Some [(1, take 40 (nameRun t))] else None)"
proof (cases "namePhraseAt t")
  case False
  then show ?thesis by (simp add: nameRx_at)
next
  case phrase: True
  let ?m = "min 40 (length (nameRun t))"
  show ?thesis
  proof (cases "nameRun t = []")
    case True
    then show ?thesis using phrase by (simp add: nameRx_at)
  next
    case False
    then have "1 \<le> length (nameRun t)" by (cases "nameRun t") simp_all
    then have "1 \<le> ?m" by simp
    then have "[1 ..< Suc ?m] = [1 ..< ?m] @ [?m]" by (rule upt_Suc_append)
    then have "rev [1 ..< Suc ?m] = ?m # rev [1 ..< ?m]" by (simp only: rev_append rev.simps append.simps)
    moreover have "take ?m (drop 11 t) = take 40 (nameRun t)"
      unfolding nameRun_def by (rule take_run)
    ultimately show ?thesis using phrase False by (simp add: nameRx_at del: upt_Suc)
  qed
qed

lemma rx_exec_Cons:
  "rx_exec r i (x # xs) =
     (case (case rx_at r i (x # xs) [] of [] \<Rightarrow> None | (_, c) # _ \<Rightarrow> Some c) of
        None \<Rightarrow> rx_exec r i xs
      | Some c \<Rightarrow> Some c)"
  by (simp split: list.splits prod.splits)

lemma rx_exec_Nil:
  "rx_exec r i [] = (case rx_at r i [] [] of [] \<Rightarrow> None | (_, c) # _ \<Rightarrow> Some c)"
  by simp

lemma nameRun_Nil: "nameRun [] = []"
  by (simp add: nameRun_def)

lemma capturedName_findName: "capturedName msg = findName msg"
proof (induction msg)
  case Nil
  show ?case unfolding capturedName_def rx_exec_Nil nameRx_first by (simp add: nameRun_Nil)
next
  case (Cons x xs)
  show ?case
  proof (cases "namePhraseAt (x # xs) \<and> nameRun (x # xs) \<noteq> []")
    case True
    then show ?thesis unfolding capturedName_def rx_exec_Cons nameRx_first by simp
  next
    case False
    then have c: "(namePhraseAt (x # xs) \<and> nameRun (x # xs) \<noteq> []) = False" by simp
    have "rx_exec nameRx True (x # xs) = rx_exec nameRx True xs"
      unfolding rx_exec_Cons nameRx_first c by simp
    then have "capturedName (x # xs) = capturedName xs" by (simp add: capturedName_def)
    then show ?thesis using Cons.IH by (simp only: findName.simps c if_False)
  qed
qed

section \<open>The chat route\<close>

lemma whatName_nonempty: "rx_test whatNameRx True msg \<Longrightarrow> msg \<noteq> []"
  by (auto simp: rx_test_def whatNameRx_def)

lemma rememberName_unfold:
  "rememberName e uid msg s =
     (case capturedName msg of
        Some n \<Rightarrow> (obj_set (fst (getFacts e uid s)) ''name'' n,
                   saveFact e uid ''name'' n (emit (Exec (SelectFacts uid)) s))
      | None \<Rightarrow> (fst (getFacts e uid s), emit (Exec (SelectFacts uid)) s))"
proof -
  obtain facts s1 where g: "getFacts e uid s = (facts, s1)" by (cases "getFacts e uid s")
  then have "s1 = emit (Exec (SelectFacts uid)) s" using getFacts_state [of e uid s] by simp
  then show ?thesis using g by (simp add: rememberName_def split: option.splits)
qed

lemma rememberName_history: "history (snd (rememberName e uid msg s)) = history s"
  by (simp add: rememberName_unfold saveFact_history emit_def split: option.splits)

lemma rememberName_trace:
  "\<exists>new. trace (snd (rememberName e uid msg s)) = trace s @ new
     \<and> \<not> list_ex isGeneration new \<and> \<not> list_ex isHistoryWrite new"
proof -
  show ?thesis
  proof (cases "capturedName msg")
    case None
    then have "trace (snd (rememberName e uid msg s)) = trace s @ [Exec (SelectFacts uid)]"
      by (simp add: rememberName_unfold emit_def)
    then show ?thesis by (simp add: isGeneration_def isHistoryWrite_def)
  next
    case (Some n)
    obtain tail where tail:
      "trace (saveFact e uid ''name'' n (emit (Exec (SelectFacts uid)) s))
         = trace (emit (Exec (SelectFacts uid)) s) @ Exec (UpsertFact uid ''name'' n) # tail"
      "\<forall>ev \<in> set tail. \<exists>msg. ev = Uncaught msg"
      using saveFact_trace by blast
    have "trace (snd (rememberName e uid msg s))
        = trace s @ (Exec (SelectFacts uid) # Exec (UpsertFact uid ''name'' n) # tail)"
      using Some tail(1) by (simp add: rememberName_unfold emit_def)
    moreover have "\<not> list_ex isGeneration (Exec (SelectFacts uid) # Exec (UpsertFact uid ''name'' n) # tail)"
      using tail(2) by (auto simp: isGeneration_def list_ex_iff)
    moreover have "\<not> list_ex isHistoryWrite (Exec (SelectFacts uid) # Exec (UpsertFact uid ''name'' n) # tail)"
      using tail(2) by (auto simp: isHistoryWrite_def list_ex_iff)
    ultimately show ?thesis by blast
  qed
qed

lemma rememberName_name:
  "obj_get (fst (rememberName e uid msg s)) ''name'' =
     (case capturedName msg of
        Some n \<Rightarrow> Some n
      | None \<Rightarrow> obj_get (fst (getFacts e uid s)) ''name'')"
  by (simp add: rememberName_unfold obj_get_set split: option.splits)

lemma chat_recall:
  assumes "user_id req = Some uid" and "uid \<noteq> []" and "message req = Some msg"
    and "rx_test whatNameRx True msg"
  shows "chat e req s =
    (\<lparr>status = 200,
      body = ChatBody (recallReply (obj_get (fst (rememberName e uid msg s)) ''name'')) (detectTone msg) True\<rparr>,
     snd (rememberName e uid msg s))"
  using assms whatName_nonempty [OF assms(4)]
  by (simp add: chat_def falsy_def recallReply_def Let_def split: prod.splits option.splits)

lemma getFacts_read_fails_state:
  "fault e (SelectFacts u) \<noteq> None \<or> memory s = None \<Longrightarrow> fst (getFacts e u s) = []"
  by (auto simp: getFacts_def db_all_def db_run_def emit_def Let_def split: option.splits sum.splits)

text \<open>
  Claim C4, as amended. For every request that carries a non-empty user id and whose message
  matches the name question, the route answers at once with status 200, the tone of the
  message and \<open>simulated: true\<close>. The name it answers with is the trimmed text captured by
  the name pattern when the message also matches that pattern, be it empty; when the message
  does not match the name pattern, it is the value of the \<open>name\<close> row of the user, provided
  the read of the facts succeeds on a fact table with at most one row for each user and key,
  and there is no name when the user has no \<open>name\<close> row, when the read fails or when there is
  no fact table. The reply is \<open>Your name is N.\<close> when that name \<open>N\<close> is not the empty string,
  and the admission of not knowing when there is no name or the name is the empty string.
  The history table is as before, and among the events that the request adds there is no
  call of the provider and no write of a history row.
\<close>

theorem name_recall_short_circuit:
  assumes "user_id req = Some uid" and "uid \<noteq> []" and "message req = Some msg"
    and "rx_test whatNameRx True msg"
  shows "(capturedName msg = Some n \<longrightarrow>
            fst (chat e req s) =
              \<lparr>status = 200,
                body = ChatBody (if n = [] then unknownNameReply else ''Your name is '' @ n @ ''.'')
                         (detectTone msg) True\<rparr>)
    \<and> (capturedName msg = None \<and> fault e (SelectFacts uid) = None \<and> memory s = Some t
          \<and> distinct (map factId (rows t)) \<and> (uid, ''name'', v) \<in> set (rows t) \<longrightarrow>
            fst (chat e req s) =
              \<lparr>status = 200,
                body = ChatBody (if v = [] then unknownNameReply else ''Your name is '' @ v @ ''.'')
                         (detectTone msg) True\<rparr>)
    \<and> (capturedName msg = None \<and> memory s = Some t
          \<and> (\<forall>r \<in> set (rows t). factId r \<noteq> (uid, ''name'')) \<longrightarrow>
            fst (chat e req s) =
              \<lparr>status = 200, body = ChatBody unknownNameReply (detectTone msg) True\<rparr>)
    \<and> (capturedName msg = None \<and> (fault e (SelectFacts uid) \<noteq> None \<or> memory s = None) \<longrightarrow>
            fst (chat e req s) =
              \<lparr>status = 200, body = ChatBody unknownNameReply (detectTone msg) True\<rparr>)
    \<and> (\<exists>reply. fst (chat e req s) = \<lparr>status = 200, body = ChatBody reply (detectTone msg) True\<rparr>)
    \<and> history (snd (chat e req s)) = history s
    \<and> (\<exists>new. trace (snd (chat e req s)) = trace s @ new
          \<and> \<not> list_ex isGeneration new \<and> \<not> list_ex isHistoryWrite new)"
proof -
  let ?known = "obj_get (fst (rememberName e uid msg s)) ''name''"
  have c: "chat e req s =
      (\<lparr>status = 200, body = ChatBody (recallReply ?known) (detectTone msg) True\<rparr>,
       snd (rememberName e uid msg s))"
    using assms by (rule chat_recall)
  have 1: "capturedName msg = Some n \<longrightarrow> ?known = Some n"
    by (simp add: rememberName_name)
  have "fault e (SelectFacts uid) \<noteq> None \<or> memory s = None \<longrightarrow>
      obj_get (fst (getFacts e uid s)) ''name'' = None"
    using getFacts_read_fails_state [of e uid s] by (auto simp: obj_get_def)
  then have 2: "capturedName msg = None \<and> (fault e (SelectFacts uid) \<noteq> None \<or> memory s = None)
      \<longrightarrow> ?known = None"
    by (auto simp: rememberName_name)
  have 3: "capturedName msg = None \<and> fault e (SelectFacts uid) = None \<and> memory s = Some t
          \<and> distinct (map factId (rows t)) \<and> (uid, ''name'', v) \<in> set (rows t) \<longrightarrow> ?known = Some v"
    using getFacts_lookup [of e uid s t "''name''" v] by (auto simp: rememberName_name)
  have 4: "capturedName msg = None \<and> memory s = Some t
          \<and> (\<forall>r \<in> set (rows t). factId r \<noteq> (uid, ''name'')) \<longrightarrow> ?known = None"
    using getFacts_absent [of s t uid "''name''" e] by (auto simp: rememberName_name)
  have 5: "recallReply None = unknownNameReply"
    "\<And>x. recallReply (Some x) = (if x = [] then unknownNameReply else ''Your name is '' @ x @ ''.'')"
    by (simp_all add: recallReply_def)
  show ?thesis
    using c 1 2 3 4 5 rememberName_history [of e uid msg s] rememberName_trace [of e uid msg s]
    by auto
qed

theorem name_recall_short_circuit_witness:
  "rx_test whatNameRx True ''what is my name?''
   \<and> capturedName ''what is my name?'' = None
   \<and> fst (chat liveProvider \<lparr>user_id = Some ''u1'', message = Some ''what is my name?''\<rparr> twoFacts)
       = \<lparr>status = 200, body = ChatBody ''Your name is Alex.'' ''neutral'' True\<rparr>
   \<and> history (snd (chat liveProvider \<lparr>user_id = Some ''u1'', message = Some ''what is my name?''\<rparr> twoFacts))
       = history twoFacts
   \<and> fst (chat liveProvider \<lparr>user_id = Some ''u3'', message = Some ''what is my name?''\<rparr> twoFacts)
       = \<lparr>status = 200, body = ChatBody unknownNameReply ''neutral'' True\<rparr>
   \<and> fst (chat liveProvider \<lparr>user_id = Some ''u1'', message = Some ''what is my name?''\<rparr> freshStore)
       = \<lparr>status = 200, body = ChatBody unknownNameReply ''neutral'' True\<rparr>
   \<and> rx_test whatNameRx True ''My name is Bob. What is my name?''
   \<and> capturedName ''My name is Bob. What is my name?'' = Some ''Bob''
   \<and> fst (chat liveProvider \<lparr>user_id = Some ''u1'', message = Some ''My name is Bob. What is my name?''\<rparr> twoFacts)
       = \<lparr>status = 200, body = ChatBody ''Your name is Bob.'' ''neutral'' True\<rparr>
   \<and> rx_test whatNameRx True ''what is my name is  ''
   \<and> capturedName ''what is my name is  '' = Some []
   \<and> fst (chat liveProvider \<lparr>user_id = Some ''u1'', message = Some ''what is my name is  ''\<rparr> twoFacts)
       = \<lparr>status = 200, body = ChatBody unknownNameReply ''neutral'' True\<rparr>"
proof -
  let ?q = "''what is my name?''"
  let ?b = "''My name is Bob. What is my name?''"
  let ?x = "''what is my name is  ''"
  let ?t = "\<lparr>uniq = True, rows = [(''u1'', ''name'', ''Alex''), (''u2'', ''name'', ''Sam'')]\<rparr>"
  have q: "rx_test whatNameRx True ?q" "capturedName ?q = None" "detectTone ?q = ''neutral''"
    by code_simp+
  have b: "rx_test whatNameRx True ?b" "capturedName ?b = Some ''Bob''" "detectTone ?b = ''neutral''"
    by code_simp+
  have x: "rx_test whatNameRx True ?x" "capturedName ?x = Some []" "detectTone ?x = ''neutral''"
    by code_simp+
  have f: "fault liveProvider (SelectFacts ''u1'') = None" "fault liveProvider (SelectFacts ''u3'') = None"
    by (simp_all add: liveProvider_def)
  have m: "memory twoFacts = Some ?t" by (simp add: twoFacts_def)
  have d: "distinct (map factId (rows ?t))" by (simp add: factId_def)
  have r: "(''u1'', ''name'', ''Alex'') \<in> set (rows ?t)" by simp
  have n: "\<forall>r \<in> set (rows ?t). factId r \<noteq> (''u3'', ''name'')" by (simp add: factId_def)
  have z: "memory freshStore = None" by (simp add: freshStore_def)
  have 1: "fst (chat liveProvider \<lparr>user_id = Some ''u1'', message = Some ?q\<rparr> twoFacts)
        = \<lparr>status = 200, body = ChatBody ''Your name is Alex.'' ''neutral'' True\<rparr>
      \<and> history (snd (chat liveProvider \<lparr>user_id = Some ''u1'', message = Some ?q\<rparr> twoFacts))
        = history twoFacts"
    using name_recall_short_circuit [where req = "\<lparr>user_id = Some ''u1'', message = Some ?q\<rparr>"
        and uid = "''u1''" and msg = ?q and e = liveProvider and s = twoFacts and t = ?t
        and v = "''Alex''"] q f m d r
    by simp
  have 2: "fst (chat liveProvider \<lparr>user_id = Some ''u3'', message = Some ?q\<rparr> twoFacts)
        = \<lparr>status = 200, body = ChatBody unknownNameReply ''neutral'' True\<rparr>"
    using name_recall_short_circuit [where req = "\<lparr>user_id = Some ''u3'', message = Some ?q\<rparr>"
        and uid = "''u3''" and msg = ?q and e = liveProvider and s = twoFacts and t = ?t] q m n
    by simp
  have 3: "fst (chat liveProvider \<lparr>user_id = Some ''u1'', message = Some ?q\<rparr> freshStore)
        = \<lparr>status = 200, body = ChatBody unknownNameReply ''neutral'' True\<rparr>"
    using name_recall_short_circuit [where req = "\<lparr>user_id = Some ''u1'', message = Some ?q\<rparr>"
        and uid = "''u1''" and msg = ?q and e = liveProvider and s = freshStore] q z
    by simp
  have 4: "fst (chat liveProvider \<lparr>user_id = Some ''u1'', message = Some ?b\<rparr> twoFacts)
        = \<lparr>status = 200, body = ChatBody ''Your name is Bob.'' ''neutral'' True\<rparr>"
    using name_recall_short_circuit [where req = "\<lparr>user_id = Some ''u1'', message = Some ?b\<rparr>"
        and uid = "''u1''" and msg = ?b and e = liveProvider and s = twoFacts and n = "''Bob''"] b
    by simp
  have 5: "fst (chat liveProvider \<lparr>user_id = Some ''u1'', message = Some ?x\<rparr> twoFacts)
        = \<lparr>status = 200, body = ChatBody unknownNameReply ''neutral'' True\<rparr>"
    using name_recall_short_circuit [where req = "\<lparr>user_id = Some ''u1'', message = Some ?x\<rparr>"
        and uid = "''u1''" and msg = ?x and e = liveProvider and s = twoFacts and n = "[]"] x
    by simp
  from q b x 1 2 3 4 5 show ?thesis by simp
qed

lemma emptyName_reached:
  "factRows (snd (chat offline \<lparr>user_id = Some ''u1'', message = Some ''my name is  ''\<rparr> readyStore))
     = factRows emptyName"
  by code_simp

text \<open>
  Claim C4 as stated fails when the known name is the empty string. The message
  \<^verbatim>\<open>what is my name is\<close> followed by two spaces matches the name question and the name
  pattern: the captured name is one space, trimmed to the empty string; it replaces the
  stored name \<open>Alex\<close> of \<open>u1\<close>, and the reply is the admission although a name fact was known
  before the request and a name fact is stored after it. Likewise the plain question on a
  store whose \<open>name\<close> row holds the empty string is answered with the admission.
\<close>

theorem name_recall_blank_name:
  "rx_test whatNameRx True ''what is my name is  ''
   \<and> factRows twoFacts = [(''u1'', ''name'', ''Alex''), (''u2'', ''name'', ''Sam'')]
   \<and> fst (chat offline \<lparr>user_id = Some ''u1'', message = Some ''what is my name is  ''\<rparr> twoFacts)
       = \<lparr>status = 200, body = ChatBody unknownNameReply ''neutral'' True\<rparr>
   \<and> factRows (snd (chat offline \<lparr>user_id = Some ''u1'', message = Some ''what is my name is  ''\<rparr> twoFacts))
       = [(''u1'', ''name'', []), (''u2'', ''name'', ''Sam'')]
   \<and> rx_test whatNameRx True ''what is my name?''
   \<and> factRows emptyName = [(''u1'', ''name'', [])]
   \<and> fst (chat offline \<lparr>user_id = Some ''u1'', message = Some ''what is my name?''\<rparr> emptyName)
       = \<lparr>status = 200, body = ChatBody unknownNameReply ''neutral'' True\<rparr>"
proof -
  have a: "rx_test whatNameRx True ''what is my name is  ''" by code_simp
  have b: "factRows twoFacts = [(''u1'', ''name'', ''Alex''), (''u2'', ''name'', ''Sam'')]" by code_simp
  have c: "fst (chat offline \<lparr>user_id = Some ''u1'', message = Some ''what is my name is  ''\<rparr> twoFacts)
       = \<lparr>status = 200, body = ChatBody unknownNameReply ''neutral'' True\<rparr>" by code_simp
  have d: "factRows (snd (chat offline \<lparr>user_id = Some ''u1'', message = Some ''what is my name is  ''\<rparr> twoFacts))
       = [(''u1'', ''name'', []), (''u2'', ''name'', ''Sam'')]" by code_simp
  have e: "rx_test whatNameRx True ''what is my name?''" by code_simp
  have f: "factRows emptyName = [(''u1'', ''name'', [])]" by code_simp
  have g: "fst (chat offline \<lparr>user_id = Some ''u1'', message = Some ''what is my name?''\<rparr> emptyName)
       = \<lparr>status = 200, body = ChatBody unknownNameReply ''neutral'' True\<rparr>" by code_simp
  from a b c d e f g show ?thesis by simp
qed

text \<open>
  Claim C10. Whatever the provider client is, present or absent, the response of the name
  recall carries \<open>simulated: true\<close>.
\<close>

theorem name_recall_simulated:
  assumes "user_id req = Some uid" and "uid \<noteq> []" and "message req = Some msg"
    and "rx_test whatNameRx True msg"
  shows "\<exists>reply tone. body (fst (chat e req s)) = ChatBody reply tone True"
  using chat_recall [OF assms, of e s] by simp

theorem name_recall_simulated_witness:
  "genAI liveProvider \<noteq> None
   \<and> rx_test whatNameRx True ''What's my name''
   \<and> (\<exists>reply tone. body (fst (chat liveProvider \<lparr>user_id = Some ''u2'', message = Some ''What's my name''\<rparr> twoFacts))
          = ChatBody reply tone True)
   \<and> body (fst (chat liveProvider \<lparr>user_id = Some ''u2'', message = Some ''What's my name''\<rparr> twoFacts))
          = ChatBody ''Your name is Sam.'' ''neutral'' True"
proof -
  have g: "genAI liveProvider \<noteq> None" by (simp add: liveProvider_def)
  have h: "rx_test whatNameRx True ''What's my name''" by code_simp
  have b: "body (fst (chat liveProvider \<lparr>user_id = Some ''u2'', message = Some ''What's my name''\<rparr> twoFacts))
          = ChatBody ''Your name is Sam.'' ''neutral'' True" by code_simp
  show ?thesis
    using name_recall_simulated [of "\<lparr>user_id = Some ''u2'', message = Some ''What's my name''\<rparr>"
        "''u2''" "''What's my name''" liveProvider twoFacts] g h b
    by simp
qed

text \<open>
  Claim C7. A request in which the user id or the message is missing is answered with
  status 400 and the error body, and the state is the one before the request: no row is
  written and no statement is sent, so no fact is read either.
\<close>

theorem chat_missing_field:
  assumes "user_id req = None \<or> message req = None"
  shows "chat e req s = (\<lparr>status = 400, body = ErrorBody ''Provide user_id and message''\<rparr>, s)"
  using assms by (auto simp: chat_def split: option.splits)

theorem chat_missing_field_witness:
  "(user_id \<lparr>user_id = Some ''u1'', message = None\<rparr> = None
      \<or> message \<lparr>user_id = Some ''u1'', message = None\<rparr> = None)
   \<and> chat liveProvider \<lparr>user_id = Some ''u1'', message = None\<rparr> twoFacts
       = (\<lparr>status = 400, body = ErrorBody ''Provide user_id and message''\<rparr>, twoFacts)"
  using chat_missing_field [of "\<lparr>user_id = Some ''u1'', message = None\<rparr>" liveProvider twoFacts]
  by simp

text \<open>An empty string is rejected by the same guard.\<close>

lemma chat_empty_field:
  assumes "user_id req = Some [] \<or> message req = Some []"
  shows "chat e req s = (\<lparr>status = 400, body = ErrorBody ''Provide user_id and message''\<rparr>, s)"
  using assms by (auto simp: chat_def falsy_def split: option.splits)

section \<open>Reading the facts\<close>

lemma db_all_fails:
  "(\<exists>msg. fst (db_all e u s) = Inl msg) \<longleftrightarrow> (fault e (SelectFacts u) \<noteq> None \<or> memory s = None)"
  by (auto simp: db_all_def db_run_def emit_def Let_def split: option.splits sum.splits)

lemma getFacts_read_fails: "fst (db_all e u s) = Inl msg \<Longrightarrow> fst (getFacts e u s) = []"
  by (auto simp: getFacts_def split: prod.splits sum.splits)

lemma getFacts_no_rows:
  assumes "memory s = Some t" and "\<forall>r \<in> set (rows t). fst r \<noteq> u"
  shows "fst (getFacts e u s) = []"
proof -
  have "filter (\<lambda>r. fst r = u) (rows t) = []"
    using assms(2) by (simp add: filter_empty_conv)
  then show ?thesis
    using assms(1)
    by (auto simp: getFacts_def db_all_def db_run_def emit_def Let_def selectFacts_def
        split: option.splits sum.splits)
qed

text \<open>
  Claim C8. \<open>getFacts\<close> always hands a mapping to its caller. When the read fails (the
  callback receives an error) the mapping is empty, as it is for a user without rows; the
  memory route answers with status 200 and the mapping, which is the empty object for a
  user without facts.
\<close>

theorem getFacts_masks_errors:
  "(fst (db_all e u s) = Inl msg \<longrightarrow> fst (getFacts e u s) = [])
   \<and> (memory s = Some t \<and> (\<forall>r \<in> set (rows t). fst r \<noteq> u) \<longrightarrow> fst (getFacts e u s) = [])
   \<and> fst (memoryRoute e u s) = \<lparr>status = 200, body = FactsBody (fst (getFacts e u s))\<rparr>
   \<and> (memory s = Some t \<and> (\<forall>r \<in> set (rows t). fst r \<noteq> u) \<longrightarrow>
         fst (memoryRoute e u s) = \<lparr>status = 200, body = FactsBody []\<rparr>)"
proof -
  have m: "fst (memoryRoute e u s) = \<lparr>status = 200, body = FactsBody (fst (getFacts e u s))\<rparr>"
    by (simp add: memoryRoute_def split: prod.splits)
  have a: "fst (db_all e u s) = Inl msg \<longrightarrow> fst (getFacts e u s) = []"
    using getFacts_read_fails by blast
  have b: "memory s = Some t \<and> (\<forall>r \<in> set (rows t). fst r \<noteq> u) \<longrightarrow> fst (getFacts e u s) = []"
    using getFacts_no_rows by blast
  from m a b show ?thesis by simp
qed

theorem getFacts_masks_errors_witness:
  "fst (db_all offline ''u1'' freshStore) = Inl (noSuchTable ''memory'')
   \<and> fst (getFacts offline ''u1'' freshStore) = []
   \<and> fst (memoryRoute offline ''u1'' freshStore) = \<lparr>status = 200, body = FactsBody []\<rparr>
   \<and> memory twoFacts = Some \<lparr>uniq = True, rows = [(''u1'', ''name'', ''Alex''), (''u2'', ''name'', ''Sam'')]\<rparr>
   \<and> filter (\<lambda>r. fst r = ''u3'') (factRows twoFacts) = []
   \<and> fst (getFacts offline ''u3'' twoFacts) = []
   \<and> fst (memoryRoute offline ''u3'' twoFacts) = \<lparr>status = 200, body = FactsBody []\<rparr>"
proof -
  have a: "fst (db_all offline ''u1'' freshStore) = Inl (noSuchTable ''memory'')"
    by (simp add: db_all_def db_run_def emit_def offline_def freshStore_def)
  have b: "memory twoFacts = Some \<lparr>uniq = True, rows = [(''u1'', ''name'', ''Alex''), (''u2'', ''name'', ''Sam'')]\<rparr>"
    by (simp add: twoFacts_def)
  have c: "\<forall>r \<in> set (rows \<lparr>uniq = True, rows = [(''u1'', ''name'', ''Alex''), (''u2'', ''name'', ''Sam'')]\<rparr>).
         fst r \<noteq> ''u3''"
    by simp
  have 1: "fst (getFacts offline ''u1'' freshStore) = []
      \<and> fst (memoryRoute offline ''u1'' freshStore) = \<lparr>status = 200, body = FactsBody []\<rparr>"
    using getFacts_masks_errors [of offline "''u1''" freshStore "noSuchTable ''memory''"] a by simp
  have 2: "fst (getFacts offline ''u3'' twoFacts) = []
      \<and> fst (memoryRoute offline ''u3'' twoFacts) = \<lparr>status = 200, body = FactsBody []\<rparr>"
    using getFacts_masks_errors [of offline "''u3''" twoFacts _
        "\<lparr>uniq = True, rows = [(''u1'', ''name'', ''Alex''), (''u2'', ''name'', ''Sam'')]\<rparr>"] b c
    by blast
  have d: "filter (\<lambda>r. fst r = ''u3'') (factRows twoFacts) = []"
    by (simp add: factRows_def twoFacts_def)
  from a b d 1 2 show ?thesis by blast
qed

section \<open>Provider errors\<close>

lemma callLLM_failed:
  assumes "genAI e = Some model" and "model prompt = Failed msg"
  shows "fst (callLLM e prompt s) = \<lparr>reply_text = ''Error calling Gemini: '' @ msg, simulated = True\<rparr>"
  using assms by (simp add: callLLM_def Let_def)

lemma chat_generate:
  assumes "user_id req = Some uid" and "uid \<noteq> []" and "message req = Some msg" and "msg \<noteq> []"
    and "\<not> rx_test whatNameRx True msg"
  shows "fst (chat e req s) =
    \<lparr>status = 200,
      body = ChatBody
        (reply_text (fst (callLLM e (buildPrompt uid msg (fst (rememberName e uid msg s)) (detectTone msg))
           (snd (rememberName e uid msg s)))))
        (detectTone msg)
        (simulated (fst (callLLM e (buildPrompt uid msg (fst (rememberName e uid msg s)) (detectTone msg))
           (snd (rememberName e uid msg s)))))\<rparr>"
  using assms by (simp add: chat_def falsy_def Let_def split: prod.splits)

text \<open>
  Claim C9. With a provider client, a call of the provider that throws makes \<open>callLLM\<close>
  return the text \<open>Error calling Gemini: \<close> followed by the message of the error, flagged as
  simulated; \<open>callLLM\<close> has no other outcome in that case, and the chat route answers the
  request with status 200 and that text as the reply.
\<close>

theorem provider_error_degrades:
  assumes "genAI e = Some model"
  shows "(model prompt = Failed err \<longrightarrow>
            fst (callLLM e prompt s) = \<lparr>reply_text = ''Error calling Gemini: '' @ err, simulated = True\<rparr>)
    \<and> (user_id req = Some uid \<and> uid \<noteq> [] \<and> message req = Some msg \<and> msg \<noteq> []
          \<and> \<not> rx_test whatNameRx True msg
          \<and> model (buildPrompt uid msg (fst (rememberName e uid msg s)) (detectTone msg)) = Failed err
          \<longrightarrow> fst (chat e req s) =
                \<lparr>status = 200, body = ChatBody (''Error calling Gemini: '' @ err) (detectTone msg) True\<rparr>)"
proof (intro conjI impI)
  assume "model prompt = Failed err"
  with assms show "fst (callLLM e prompt s) = \<lparr>reply_text = ''Error calling Gemini: '' @ err, simulated = True\<rparr>"
    by (rule callLLM_failed)
next
  assume a: "user_id req = Some uid \<and> uid \<noteq> [] \<and> message req = Some msg \<and> msg \<noteq> []
          \<and> \<not> rx_test whatNameRx True msg
          \<and> model (buildPrompt uid msg (fst (rememberName e uid msg s)) (detectTone msg)) = Failed err"
  then have f: "model (buildPrompt uid msg (fst (rememberName e uid msg s)) (detectTone msg)) = Failed err"
    by simp
  have "fst (callLLM e (buildPrompt uid msg (fst (rememberName e uid msg s)) (detectTone msg))
           (snd (rememberName e uid msg s)))
      = \<lparr>reply_text = ''Error calling Gemini: '' @ err, simulated = True\<rparr>"
    using assms f by (rule callLLM_failed)
  then show "fst (chat e req s) =
      \<lparr>status = 200, body = ChatBody (''Error calling Gemini: '' @ err) (detectTone msg) True\<rparr>"
    using a chat_generate [of req uid msg e s] by simp
qed

theorem provider_error_degrades_witness:
  "genAI brokenProvider = Some (\<lambda>prompt. Failed ''fetch failed'')
   \<and> \<not> rx_test whatNameRx True ''tell me a joke''
   \<and> fst (callLLM brokenProvider ''hello'' readyStore)
       = \<lparr>reply_text = ''Error calling Gemini: fetch failed'', simulated = True\<rparr>
   \<and> fst (chat brokenProvider \<lparr>user_id = Some ''u1'', message = Some ''tell me a joke''\<rparr> readyStore)
       = \<lparr>status = 200, body = ChatBody ''Error calling Gemini: fetch failed'' ''playful'' True\<rparr>"
proof -
  have g: "genAI brokenProvider = Some (\<lambda>prompt. Failed ''fetch failed'')"
    by (simp add: brokenProvider_def)
  have h: "\<not> rx_test whatNameRx True ''tell me a joke''" by code_simp
  have t: "detectTone ''tell me a joke'' = ''playful''" by code_simp
  show ?thesis
    using provider_error_degrades [OF g, where prompt = "''hello''" and err = "''fetch failed''"
        and s = readyStore and req = "\<lparr>user_id = Some ''u1'', message = Some ''tell me a joke''\<rparr>"
        and uid = "''u1''" and msg = "''tell me a joke''"]
      g h t
    by simp
qed

end
